theory Spec2Isabelle
  imports Complex_Main "HOL-Library.Signed_Division" "HOL-Library.Log_Nat"
begin

section \<open>Numbers\<close>

text \<open>
  The program keeps money in Go's \<^verbatim>\<open>float64\<close>, the binary64 format of IEEE 754. A value
  is a finite number, one of the two infinities, or not-a-number;
  \<^verbatim>\<open>strconv.ParseFloat\<close> reads all of them (\<^verbatim>\<open>"Inf"\<close>, \<^verbatim>\<open>"-Inf"\<close>, \<^verbatim>\<open>"NaN"\<close>), so all of
  them reach the simulator. A finite value is kept as the real number it stands for. The
  two zeros of the format are one value here: Go's comparisons do not tell them apart,
  and the results of its arithmetic on them differ at most in the sign of a zero.
\<close>

datatype float64 = Finite real | PInf | NInf | NaN

subsection \<open>Rounding\<close>

text \<open>
  Every operation computes the exact result and rounds it to the nearest binary64
  value, to the one with the even significand on a tie. A binary64 value is \<open>m * 2^e\<close>
  with an integer \<open>m\<close> of at most 53 bits and \<open>-1074 \<le> e \<le> 971\<close>. Each operation rounds
  on its own, as in the code the Go compiler makes for amd64; the language also lets a
  compiler fuse a product with the sum that follows into one rounding.

  \<open>pow2 e\<close> is \<open>2^e\<close> for an integer \<open>e\<close>. \<open>floor_log2 a\<close> is the integer \<open>k\<close> with
  \<open>2^k \<le> a < 2^(k+1)\<close> for a positive \<open>a\<close>, computed from the bit length of the integer
  part of \<open>a\<close> or of \<open>1 / a\<close>.
\<close>

definition pow2 :: "int \<Rightarrow> real" where
  "pow2 e = (if 0 \<le> e then 2 ^ nat e else 1 / 2 ^ nat (- e))"

definition floor_log2 :: "real \<Rightarrow> int" where
  "floor_log2 a = (if 1 \<le> a then bitlen \<lfloor>a\<rfloor> - 1 else - bitlen (\<lceil>1 / a\<rceil> - 1))"

text \<open>The nearest integer, the even one of the two when \<open>q\<close> lies half way.\<close>

definition round_even :: "real \<Rightarrow> int" where
  "round_even q =
     (let f = \<lfloor>q\<rfloor>; r = q - of_int f
      in if r < 1 / 2 then f else if 1 / 2 < r then f + 1 else if even f then f else f + 1)"

text \<open>
  Rounding a real number \<open>z\<close>. The exponent \<open>e\<close> is that of the last of 53 bits of \<open>|z|\<close>,
  and not below \<open>-1074\<close>, where the subnormal numbers lie; \<open>m\<close> is \<open>|z| / 2^e\<close> rounded to an
  integer, at most \<open>2^53\<close>. A result of \<open>2^1024\<close> or more is an infinity.
\<close>

definition round64 :: "real \<Rightarrow> float64" where
  "round64 z =
     (if z = 0 then Finite 0
      else
        let a = \<bar>z\<bar>;
            e = max (floor_log2 a - 52) (- 1074);
            m = round_even (a / pow2 e)
        in if 971 < e \<or> (e = 971 \<and> m = 2 ^ 53) then (if 0 < z then PInf else NInf)
           else Finite (sgn z * (of_int m * pow2 e)))"

text \<open>The values of the type: a finite value is one that rounding leaves as it is.\<close>

fun is_float64 :: "float64 \<Rightarrow> bool" where
  "is_float64 (Finite x) = (round64 x = Finite x)"
| "is_float64 v = True"

subsection \<open>Comparison and arithmetic\<close>

text \<open>Go's \<^verbatim>\<open><\<close>: false as soon as one side is not-a-number.\<close>

fun flt :: "float64 \<Rightarrow> float64 \<Rightarrow> bool" where
  "flt NaN y = False"
| "flt x NaN = False"
| "flt (Finite x) (Finite y) = (x < y)"
| "flt (Finite x) PInf = True"
| "flt (Finite x) NInf = False"
| "flt PInf y = False"
| "flt NInf (Finite y) = True"
| "flt NInf PInf = True"
| "flt NInf NInf = False"

text \<open>Go's \<^verbatim>\<open>>=\<close>: again false on not-a-number, so it is not the negation of \<open>flt\<close>.\<close>

fun fge :: "float64 \<Rightarrow> float64 \<Rightarrow> bool" where
  "fge NaN y = False"
| "fge x NaN = False"
| "fge x y = (\<not> flt x y)"

fun fneg :: "float64 \<Rightarrow> float64" where
  "fneg (Finite x) = Finite (- x)"
| "fneg PInf = NInf"
| "fneg NInf = PInf"
| "fneg NaN = NaN"

text \<open>
  Go's \<^verbatim>\<open>+\<close>: the rounded sum of two finite values, which is an infinity when the sum
  overflows; the rules of IEEE 754 for the infinities and for not-a-number.
\<close>

fun fadd :: "float64 \<Rightarrow> float64 \<Rightarrow> float64" where
  "fadd NaN y = NaN"
| "fadd x NaN = NaN"
| "fadd (Finite x) (Finite y) = round64 (x + y)"
| "fadd (Finite x) PInf = PInf"
| "fadd (Finite x) NInf = NInf"
| "fadd PInf (Finite y) = PInf"
| "fadd PInf PInf = PInf"
| "fadd PInf NInf = NaN"
| "fadd NInf (Finite y) = NInf"
| "fadd NInf NInf = NInf"
| "fadd NInf PInf = NaN"

text \<open>Go's \<^verbatim>\<open>-\<close>: \<open>x - y\<close> is \<open>x + (-y)\<close> in IEEE 754, and negation is exact.\<close>

definition fsub :: "float64 \<Rightarrow> float64 \<Rightarrow> float64" where
  "fsub x y = fadd x (fneg y)"

text \<open>An infinity times \<open>c\<close>: not-a-number for zero, else the sign decides.\<close>

definition inf_times :: "bool \<Rightarrow> real \<Rightarrow> float64" where
  "inf_times positive c =
     (if c = 0 then NaN else if (0 < c) = positive then PInf else NInf)"

text \<open>Go's \<^verbatim>\<open>*\<close>: the rounded product of two finite values.\<close>

fun fmul :: "float64 \<Rightarrow> float64 \<Rightarrow> float64" where
  "fmul NaN y = NaN"
| "fmul x NaN = NaN"
| "fmul (Finite x) (Finite y) = round64 (x * y)"
| "fmul (Finite x) PInf = inf_times True x"
| "fmul (Finite x) NInf = inf_times False x"
| "fmul PInf (Finite y) = inf_times True y"
| "fmul NInf (Finite y) = inf_times False y"
| "fmul PInf PInf = PInf"
| "fmul PInf NInf = NInf"
| "fmul NInf PInf = NInf"
| "fmul NInf NInf = PInf"

text \<open>A finite value that is not negative: what an amount of money should be.\<close>

fun finite_nonneg :: "float64 \<Rightarrow> bool" where
  "finite_nonneg (Finite a) = (0 \<le> a)"
| "finite_nonneg x = False"

section \<open>Data model\<close>

record Bet =
  Type :: string
  Value :: int
  Amount :: float64

record Strategy =
  InitialBankroll :: float64
  Bets :: "Bet list"

record RouletteWheel =
  Numbers :: "int list"

section \<open>The wheel\<close>

text \<open>
  \<^verbatim>\<open>make([]int, 38)\<close> is 38 zeros; the loop then writes \<open>i + 1\<close> at index \<open>i\<close> for
  \<open>i = 0, \<dots>, 35\<close>, and the two last assignments write 0 (the literal \<^verbatim>\<open>00\<close> is octal
  zero) at 36 and 37. Every index written is below 38, so no write is out of range.
\<close>

definition NewRouletteWheel :: RouletteWheel where
  "NewRouletteWheel =
     (let numbers = replicate 38 (0::int);
          numbers = fold (\<lambda>i ns. ns[i := int i + 1]) [0..<36] numbers;
          numbers = numbers[36 := 0];
          numbers = numbers[37 := 0]
      in \<lparr>Numbers = numbers\<rparr>)"

text \<open>
  \<^verbatim>\<open>rand.Intn(n)\<close> belongs to Go's library: it returns some index in \<open>[0, n)\<close>. The model
  takes the raw output \<open>r\<close> of the random source for this call and reduces it into that
  range, so that every index can be drawn and none is out of range.
\<close>

definition Intn :: "nat \<Rightarrow> nat \<Rightarrow> nat" where
  "Intn r n = r mod n"

definition Spin :: "RouletteWheel \<Rightarrow> nat \<Rightarrow> int" where
  "Spin rw r = Numbers rw ! Intn r (length (Numbers rw))"

section \<open>The simulator\<close>

fun contains :: "int list \<Rightarrow> int \<Rightarrow> bool" where
  "contains [] val = False"
| "contains (item # slice) val = (if item = val then True else contains slice val)"

definition redNumbers :: "int list" where
  "redNumbers = [1, 3, 5, 7, 9, 12, 14, 16, 18, 19, 21, 23, 25, 27, 30, 32, 34, 36]"

definition blackNumbers :: "int list" where
  "blackNumbers = [2, 4, 6, 8, 10, 11, 13, 15, 17, 20, 22, 24, 26, 28, 29, 31, 33, 35]"

text \<open>
  The \<^verbatim>\<open>switch\<close> on the bet's type, applied to the bankroll after the debit. Go's \<^verbatim>\<open>%\<close>
  truncates towards zero, which is \<open>smod\<close>. A type string that matches no case leaves
  the bankroll as it is: the \<^verbatim>\<open>switch\<close> has no default.
\<close>

definition settle :: "Bet \<Rightarrow> int \<Rightarrow> float64 \<Rightarrow> float64" where
  "settle bet winningNumber bankroll =
     (if Type bet = ''number'' then
        (if Value bet = winningNumber
         then fadd bankroll (fmul (Amount bet) (Finite 36)) else bankroll)
      else if Type bet = ''even'' then
        (if winningNumber smod 2 = 0 \<and> winningNumber \<noteq> 0
         then fadd bankroll (fmul (Amount bet) (Finite 2)) else bankroll)
      else if Type bet = ''odd'' then
        (if winningNumber smod 2 \<noteq> 0 \<and> winningNumber \<noteq> 0
         then fadd bankroll (fmul (Amount bet) (Finite 2)) else bankroll)
      else if Type bet = ''red'' then
        (if contains redNumbers winningNumber
         then fadd bankroll (fmul (Amount bet) (Finite 2)) else bankroll)
      else if Type bet = ''black'' then
        (if contains blackNumbers winningNumber
         then fadd bankroll (fmul (Amount bet) (Finite 2)) else bankroll)
      else bankroll)"

text \<open>One pass of the inner loop's body: the affordability check, the debit, the switch.\<close>

definition place_bet :: "Bet \<Rightarrow> int \<Rightarrow> float64 \<Rightarrow> float64" where
  "place_bet bet winningNumber bankroll =
     (if flt bankroll (Amount bet) then bankroll
      else settle bet winningNumber (fsub bankroll (Amount bet)))"

fun bets_loop :: "Bet list \<Rightarrow> int \<Rightarrow> float64 \<Rightarrow> float64" where
  "bets_loop [] winningNumber bankroll = bankroll"
| "bets_loop (bet # bets) winningNumber bankroll =
     bets_loop bets winningNumber (place_bet bet winningNumber bankroll)"

text \<open>
  The outer loop \<^verbatim>\<open>for i := 0; i < numGames; i++\<close>. The random source is a sequence
  \<open>rnd\<close>: game \<open>i\<close> makes the \<open>i\<close>-th call of \<^verbatim>\<open>Spin\<close> and receives \<open>rnd i\<close>.
\<close>

function games_loop ::
  "(nat \<Rightarrow> nat) \<Rightarrow> RouletteWheel \<Rightarrow> Bet list \<Rightarrow> int \<Rightarrow> int \<Rightarrow> float64 \<Rightarrow> float64" where
  "games_loop rnd wheel bets numGames i bankroll =
     (if i < numGames
      then games_loop rnd wheel bets numGames (i + 1)
             (bets_loop bets (Spin wheel (rnd (nat i))) bankroll)
      else bankroll)"
  by pat_completeness auto
termination
  by (relation "measure (\<lambda>(rnd, wheel, bets, numGames, i, bankroll). nat (numGames - i))") auto

definition SimulateRoulette :: "(nat \<Rightarrow> nat) \<Rightarrow> Strategy \<Rightarrow> int \<Rightarrow> float64" where
  "SimulateRoulette rnd strategy numGames =
     games_loop rnd NewRouletteWheel (Bets strategy) numGames 0 (InitialBankroll strategy)"

text \<open>
  The same loops, recording the bankroll after every assignment to it: after the debit
  of a placed bet and after the \<^verbatim>\<open>switch\<close> that may credit it. A skipped bet records
  nothing.
\<close>

definition place_bet_trace :: "Bet \<Rightarrow> int \<Rightarrow> float64 \<Rightarrow> float64 list" where
  "place_bet_trace bet winningNumber bankroll =
     (if flt bankroll (Amount bet) then []
      else [fsub bankroll (Amount bet),
            settle bet winningNumber (fsub bankroll (Amount bet))])"

fun bets_loop_trace :: "Bet list \<Rightarrow> int \<Rightarrow> float64 \<Rightarrow> float64 list" where
  "bets_loop_trace [] winningNumber bankroll = []"
| "bets_loop_trace (bet # bets) winningNumber bankroll =
     place_bet_trace bet winningNumber bankroll
       @ bets_loop_trace bets winningNumber (place_bet bet winningNumber bankroll)"

function games_loop_trace ::
  "(nat \<Rightarrow> nat) \<Rightarrow> RouletteWheel \<Rightarrow> Bet list \<Rightarrow> int \<Rightarrow> int \<Rightarrow> float64 \<Rightarrow> float64 list" where
  "games_loop_trace rnd wheel bets numGames i bankroll =
     (if i < numGames
      then bets_loop_trace bets (Spin wheel (rnd (nat i))) bankroll
             @ games_loop_trace rnd wheel bets numGames (i + 1)
                 (bets_loop bets (Spin wheel (rnd (nat i))) bankroll)
      else [])"
  by pat_completeness auto
termination
  by (relation "measure (\<lambda>(rnd, wheel, bets, numGames, i, bankroll). nat (numGames - i))") auto

definition SimulateRoulette_trace :: "(nat \<Rightarrow> nat) \<Rightarrow> Strategy \<Rightarrow> int \<Rightarrow> float64 list" where
  "SimulateRoulette_trace rnd strategy numGames =
     games_loop_trace rnd NewRouletteWheel (Bets strategy) numGames 0
       (InitialBankroll strategy)"

text \<open>The payout table of the specification, row by row, to compare \<open>settle\<close> with.\<close>

definition wins_spec :: "string \<Rightarrow> int \<Rightarrow> int \<Rightarrow> bool" where
  "wins_spec kind val pocket =
     (if kind = ''number'' then pocket = val
      else if kind = ''even'' then even pocket \<and> pocket \<noteq> 0
      else if kind = ''odd'' then odd pocket
      else if kind = ''red'' then
        pocket \<in> {1, 3, 5, 7, 9, 12, 14, 16, 18, 19, 21, 23, 25, 27, 30, 32, 34, 36}
      else if kind = ''black'' then
        pocket \<in> {2, 4, 6, 8, 10, 11, 13, 15, 17, 20, 22, 24, 26, 28, 29, 31, 33, 35}
      else False)"

definition payout_spec :: "string \<Rightarrow> float64 \<Rightarrow> float64" where
  "payout_spec kind amount =
     (if kind = ''number'' then fmul amount (Finite 36) else fmul amount (Finite 2))"

definition recognized_types :: "string list" where
  "recognized_types = [''number'', ''even'', ''odd'', ''red'', ''black'']"

section \<open>The strategy parser\<close>

subsection \<open>String functions of Go's library\<close>

text \<open>
  A Go string is a sequence of bytes, here a list of 8-bit characters.
  \<^verbatim>\<open>strings.Split\<close> is only called with a separator of one byte (a newline or a comma):
  it cuts at every occurrence and keeps empty pieces, so the result is never empty.
\<close>

fun Split_from :: "char \<Rightarrow> string \<Rightarrow> string \<Rightarrow> string list" where
  "Split_from sep cur [] = [rev cur]"
| "Split_from sep cur (c # cs) =
     (if c = sep then rev cur # Split_from sep [] cs else Split_from sep (c # cur) cs)"

definition Split :: "string \<Rightarrow> char \<Rightarrow> string list" where
  "Split s sep = Split_from sep [] s"

definition HasPrefix :: "string \<Rightarrow> string \<Rightarrow> bool" where
  "HasPrefix s prefix = (length prefix \<le> length s \<and> take (length prefix) s = prefix)"

definition TrimPrefix :: "string \<Rightarrow> string \<Rightarrow> string" where
  "TrimPrefix s prefix = (if HasPrefix s prefix then drop (length prefix) s else s)"

text \<open>
  \<^verbatim>\<open>strings.TrimSpace\<close> removes leading and trailing white space as Unicode defines it.
  In UTF-8 that is one of six ASCII bytes, or the two-byte encoding of U+0085 or U+00A0,
  or the three-byte encoding of U+1680, U+2000 to U+200A, U+2028, U+2029, U+202F, U+205F
  or U+3000.
\<close>

definition asciiSpace :: "char \<Rightarrow> bool" where
  "asciiSpace c = (c \<in> set [CHR 0x09, CHR 0x0A, CHR 0x0B, CHR 0x0C, CHR 0x0D, CHR 0x20])"

definition space2 :: "char \<Rightarrow> char \<Rightarrow> bool" where
  "space2 a b = (a = CHR 0xC2 \<and> (b = CHR 0x85 \<or> b = CHR 0xA0))"

definition space3 :: "char \<Rightarrow> char \<Rightarrow> char \<Rightarrow> bool" where
  "space3 a b c =
     ((a = CHR 0xE1 \<and> b = CHR 0x9A \<and> c = CHR 0x80)
      \<or> (a = CHR 0xE2 \<and> b = CHR 0x80
          \<and> ((0x80 \<le> (of_char c :: nat) \<and> (of_char c :: nat) \<le> 0x8A)
             \<or> c = CHR 0xA8 \<or> c = CHR 0xA9 \<or> c = CHR 0xAF))
      \<or> (a = CHR 0xE2 \<and> b = CHR 0x81 \<and> c = CHR 0x9F)
      \<or> (a = CHR 0xE3 \<and> b = CHR 0x80 \<and> c = CHR 0x80))"

fun TrimLeft :: "string \<Rightarrow> string" where
  "TrimLeft (a # b # c # s) =
     (if asciiSpace a then TrimLeft (b # c # s)
      else if space2 a b then TrimLeft (c # s)
      else if space3 a b c then TrimLeft s
      else a # b # c # s)"
| "TrimLeft [a, b] =
     (if asciiSpace a then TrimLeft [b] else if space2 a b then [] else [a, b])"
| "TrimLeft [a] = (if asciiSpace a then [] else [a])"
| "TrimLeft [] = []"

text \<open>The same from the end; the argument is the string reversed, last byte first.\<close>

fun TrimRight_rev :: "string \<Rightarrow> string" where
  "TrimRight_rev (c # b # a # s) =
     (if asciiSpace c then TrimRight_rev (b # a # s)
      else if space2 b c then TrimRight_rev (a # s)
      else if space3 a b c then TrimRight_rev s
      else c # b # a # s)"
| "TrimRight_rev [c, b] =
     (if asciiSpace c then TrimRight_rev [b] else if space2 b c then [] else [c, b])"
| "TrimRight_rev [c] = (if asciiSpace c then [] else [c])"
| "TrimRight_rev [] = []"

definition TrimSpace :: "string \<Rightarrow> string" where
  "TrimSpace s = rev (TrimRight_rev (rev (TrimLeft s)))"

subsection \<open>ParseStrategy\<close>

text \<open>
  The four \<^verbatim>\<open>fmt.Errorf\<close> returns of \<^verbatim>\<open>ParseStrategy\<close>; the format error carries the
  offending line, as its message does.
\<close>

datatype parse_error =
  InvalidBankroll | InvalidBetFormat string | InvalidBetValue | InvalidBetAmount

text \<open>
  \<^verbatim>\<open>strconv.ParseFloat\<close> and \<^verbatim>\<open>strconv.Atoi\<close> belong to Go's library, not to the
  repository. The parser takes them as the parameters \<open>parseFloat\<close> and \<open>atoi\<close>, which
  return \<open>None\<close> where the library returns an error.

  The loop over the lines, with the strategy built so far. The indices 0, 1 and 2 are
  read only after the check that there are exactly three parts.
\<close>

fun parse_lines ::
  "(string \<Rightarrow> float64 option) \<Rightarrow> (string \<Rightarrow> int option) \<Rightarrow> string list \<Rightarrow> Strategy
     \<Rightarrow> parse_error + Strategy" where
  "parse_lines parseFloat atoi [] strategy = Inr strategy"
| "parse_lines parseFloat atoi (l # lines) strategy =
     (let line = TrimSpace l in
      if HasPrefix line ''bankroll:'' then
        (let bankrollStr = TrimPrefix line ''bankroll:'' in
         case parseFloat (TrimSpace bankrollStr) of
           None \<Rightarrow> Inl InvalidBankroll
         | Some bankroll \<Rightarrow>
             parse_lines parseFloat atoi lines (strategy\<lparr>InitialBankroll := bankroll\<rparr>))
      else if HasPrefix line ''bet:'' then
        (let betStr = TrimPrefix line ''bet:'';
             parts = Split betStr CHR '','' in
         if length parts \<noteq> 3 then Inl (InvalidBetFormat line)
         else
           (let betType = TrimSpace (parts ! 0) in
            case atoi (TrimSpace (parts ! 1)) of
              None \<Rightarrow> Inl InvalidBetValue
            | Some betValue \<Rightarrow>
                (case parseFloat (TrimSpace (parts ! 2)) of
                   None \<Rightarrow> Inl InvalidBetAmount
                 | Some betAmount \<Rightarrow>
                     parse_lines parseFloat atoi lines
                       (strategy\<lparr>Bets := Bets strategy @
                          [\<lparr>Type = betType, Value = betValue, Amount = betAmount\<rparr>]\<rparr>))))
      else parse_lines parseFloat atoi lines strategy)"

text \<open>\<^verbatim>\<open>&Strategy{}\<close> is the zero value: bankroll 0 and no bets.\<close>

definition ParseStrategy ::
  "(string \<Rightarrow> float64 option) \<Rightarrow> (string \<Rightarrow> int option) \<Rightarrow> string \<Rightarrow> parse_error + Strategy" where
  "ParseStrategy parseFloat atoi input =
     parse_lines parseFloat atoi (Split input CHR 0x0A)
       \<lparr>InitialBankroll = Finite 0, Bets = []\<rparr>"

subsection \<open>What the specification says of one line\<close>

text \<open>
  The specification describes the parser line by line: which lines are recognized, when
  a recognized line is an error, and which bet a good bet line appends. These
  definitions follow its words, not the code; the theorems compare the two.
\<close>

definition trimmed_lines :: "string \<Rightarrow> string list" where
  "trimmed_lines input = map TrimSpace (Split input CHR 0x0A)"

definition is_bankroll_line :: "string \<Rightarrow> bool" where
  "is_bankroll_line line = HasPrefix line ''bankroll:''"

definition is_bet_line :: "string \<Rightarrow> bool" where
  "is_bet_line line = HasPrefix line ''bet:''"

definition bankroll_text :: "string \<Rightarrow> string" where
  "bankroll_text line = TrimSpace (TrimPrefix line ''bankroll:'')"

definition bet_fields :: "string \<Rightarrow> string list" where
  "bet_fields line = map TrimSpace (Split (TrimPrefix line ''bet:'') CHR '','')"

definition line_error ::
  "(string \<Rightarrow> float64 option) \<Rightarrow> (string \<Rightarrow> int option) \<Rightarrow> string \<Rightarrow> parse_error option" where
  "line_error parseFloat atoi line =
     (if is_bankroll_line line \<and> parseFloat (bankroll_text line) = None
      then Some InvalidBankroll
      else if is_bet_line line then
        (case bet_fields line of
           [t, v, a] \<Rightarrow>
             (if atoi v = None then Some InvalidBetValue
              else if parseFloat a = None then Some InvalidBetAmount
              else None)
         | _ \<Rightarrow> Some (InvalidBetFormat line))
      else None)"

definition bet_of_line ::
  "(string \<Rightarrow> float64 option) \<Rightarrow> (string \<Rightarrow> int option) \<Rightarrow> string \<Rightarrow> Bet option" where
  "bet_of_line parseFloat atoi line =
     (case bet_fields line of
        [t, v, a] \<Rightarrow>
          (case atoi v of
             None \<Rightarrow> None
           | Some n \<Rightarrow>
               (case parseFloat a of
                  None \<Rightarrow> None
                | Some x \<Rightarrow> Some \<lparr>Type = t, Value = n, Amount = x\<rparr>))
      | _ \<Rightarrow> None)"

text \<open>The effect of a line that is not an error on the strategy built so far.\<close>

definition apply_line ::
  "(string \<Rightarrow> float64 option) \<Rightarrow> (string \<Rightarrow> int option) \<Rightarrow> string \<Rightarrow> Strategy \<Rightarrow> Strategy" where
  "apply_line parseFloat atoi line strategy =
     (if is_bankroll_line line then
        (case parseFloat (bankroll_text line) of
           None \<Rightarrow> strategy
         | Some bankroll \<Rightarrow> strategy\<lparr>InitialBankroll := bankroll\<rparr>)
      else if is_bet_line line then
        (case bet_of_line parseFloat atoi line of
           None \<Rightarrow> strategy
         | Some bet \<Rightarrow> strategy\<lparr>Bets := Bets strategy @ [bet]\<rparr>)
      else strategy)"

definition bankroll_lines :: "string \<Rightarrow> string list" where
  "bankroll_lines input = filter is_bankroll_line (trimmed_lines input)"

definition bet_lines :: "string \<Rightarrow> string list" where
  "bet_lines input = filter is_bet_line (trimmed_lines input)"

section \<open>Sample inputs\<close>

text \<open>
  Modelled from the spec: \<^verbatim>\<open>strconv.Atoi\<close> and \<^verbatim>\<open>strconv.ParseFloat\<close> are missing from
  the repository, and the specification only asks that a field "parse as an integer" or
  "parse as a decimal". The two readers below accept plain decimal notation: an optional
  sign and between 1 and 18 digits, for a decimal with an optional point among the
  digits, and the decimal reader rounds the number written to the nearest \<^verbatim>\<open>float64\<close>, as
  the library does. Whatever they accept the library accepts too, the values being
  within the range of a 64-bit integer and of a finite \<^verbatim>\<open>float64\<close>; they serve to run the
  parser on examples, and no theorem about the parser depends on them.
\<close>

definition digit_val :: "char \<Rightarrow> nat option" where
  "digit_val c =
     (if 48 \<le> (of_char c :: nat) \<and> (of_char c :: nat) \<le> 57
      then Some (of_char c - 48) else None)"

fun read_digits :: "string \<Rightarrow> nat \<Rightarrow> nat option" where
  "read_digits [] acc = Some acc"
| "read_digits (c # cs) acc =
     (case digit_val c of None \<Rightarrow> None | Some d \<Rightarrow> read_digits cs (10 * acc + d))"

definition read_nat :: "string \<Rightarrow> nat option" where
  "read_nat s = (if s = [] \<or> 18 < length s then None else read_digits s 0)"

definition read_int :: "string \<Rightarrow> int option" where
  "read_int s =
     (case s of
        [] \<Rightarrow> None
      | c # cs \<Rightarrow>
          if c = CHR ''-'' then map_option (\<lambda>n. - int n) (read_nat cs)
          else if c = CHR ''+'' then map_option int (read_nat cs)
          else map_option int (read_nat s))"

definition read_unsigned_decimal :: "string \<Rightarrow> real option" where
  "read_unsigned_decimal s =
     (case Split s CHR ''.'' of
        [whole] \<Rightarrow> map_option real (read_nat whole)
      | [whole, fraction] \<Rightarrow>
          map_option (\<lambda>n. real n / 10 ^ length fraction) (read_nat (whole @ fraction))
      | _ \<Rightarrow> None)"

definition read_decimal :: "string \<Rightarrow> float64 option" where
  "read_decimal s =
     (case s of
        [] \<Rightarrow> None
      | c # cs \<Rightarrow>
          if c = CHR ''-'' then map_option (\<lambda>x. round64 (- x)) (read_unsigned_decimal cs)
          else if c = CHR ''+'' then map_option round64 (read_unsigned_decimal cs)
          else map_option round64 (read_unsigned_decimal s))"

text \<open>A random source that gives the same raw output \<open>r\<close> at every call.\<close>

definition always :: "nat \<Rightarrow> nat \<Rightarrow> nat" where
  "always r i = r"

section \<open>Properties of the arithmetic\<close>

subsection \<open>Powers of two and the exponent\<close>

lemma pow2_powr: "pow2 e = 2 powr (real_of_int e)"
  by (simp add: pow2_def powr_int)

lemma pow2_pos [simp]: "0 < pow2 e"
  by (simp add: pow2_powr)

lemma pow2_add: "pow2 (i + j) = pow2 i * pow2 j"
  by (simp add: pow2_powr powr_add)

lemma pow2_less_iff [simp]: "pow2 i < pow2 j \<longleftrightarrow> i < j"
  by (simp add: pow2_powr)

lemma pow2_le_iff [simp]: "pow2 i \<le> pow2 j \<longleftrightarrow> i \<le> j"
  by (simp add: pow2_powr)

lemma pow2_nat: "0 \<le> e \<Longrightarrow> pow2 e = 2 ^ nat e"
  by (simp add: pow2_def)

lemma pow2_numeral [simp]: "pow2 (numeral n) = 2 ^ numeral n"
  by (simp add: pow2_def)

lemma pow2_0 [simp]: "pow2 0 = 1"
  by (simp add: pow2_def)

lemma floor_log2_bounds:
  assumes "0 < a"
  shows "pow2 (floor_log2 a) \<le> a" and "a < pow2 (floor_log2 a + 1)"
proof -
  have "pow2 (floor_log2 a) \<le> a \<and> a < pow2 (floor_log2 a + 1)"
  proof (cases "1 \<le> a")
    case True
    let ?n = "\<lfloor>a\<rfloor>"
    from True have n: "0 < ?n" by linarith
    let ?k = "bitlen ?n - 1"
    from bitlen_bounds [OF n] have b: "2 ^ nat ?k \<le> ?n" "?n < 2 ^ nat (bitlen ?n)"
      by simp_all
    have k: "0 \<le> ?k"
      using n by (auto simp: bitlen_alt_def)
    have "real_of_int (2 ^ nat ?k) \<le> a"
      using b(1) by (simp only: le_floor_iff)
    then have l: "pow2 ?k \<le> a"
      using k by (simp add: pow2_nat)
    have "?n + 1 \<le> 2 ^ nat (bitlen ?n)"
      using b(2) by simp
    then have "real_of_int (?n + 1) \<le> real_of_int (2 ^ nat (bitlen ?n))"
      by linarith
    then have "real_of_int ?n + 1 \<le> 2 ^ nat (bitlen ?n)"
      by simp
    moreover have "a < real_of_int ?n + 1"
      by linarith
    ultimately have "a < 2 ^ nat (bitlen ?n)"
      by linarith
    then have "a < pow2 (?k + 1)"
      using k by (simp add: pow2_def)
    with l True show ?thesis
      by (simp add: floor_log2_def)
  next
    case False
    let ?w = "1 / a"
    let ?c = "\<lceil>?w\<rceil>"
    from False assms have w: "1 < ?w" by simp
    then have c: "2 \<le> ?c" by linarith
    let ?b = "bitlen (?c - 1)"
    from c have p: "0 < ?c - 1" by linarith
    from bitlen_bounds [OF p] have b: "2 ^ nat (?b - 1) \<le> ?c - 1" "?c - 1 < 2 ^ nat ?b"
      by simp_all
    have bpos: "1 \<le> ?b"
      using p by (auto simp: bitlen_alt_def)
    have "real_of_int ?c - 1 < ?w"
      by linarith
    moreover have "real_of_int (2 ^ nat (?b - 1)) \<le> real_of_int (?c - 1)"
      using b(1) by linarith
    then have "2 ^ nat (?b - 1) \<le> real_of_int ?c - 1"
      by simp
    ultimately have lo: "2 ^ nat (?b - 1) < ?w"
      by linarith
    have "?c \<le> 2 ^ nat ?b"
      using b(2) by simp
    then have "real_of_int ?c \<le> real_of_int (2 ^ nat ?b)"
      by linarith
    then have "real_of_int ?c \<le> 2 ^ nat ?b"
      by simp
    moreover have "?w \<le> real_of_int ?c"
      by linarith
    ultimately have hi: "?w \<le> 2 ^ nat ?b"
      by linarith
    have "1 / 2 ^ nat ?b \<le> a"
      using hi assms by (simp add: field_simps)
    then have l: "pow2 (- ?b) \<le> a"
      using bpos by (simp add: pow2_def)
    have "a < 1 / 2 ^ nat (?b - 1)"
      using lo assms by (simp add: field_simps)
    moreover have "pow2 (- ?b + 1) = 1 / 2 ^ nat (?b - 1)"
      using bpos by (cases "?b = 1") (simp_all add: pow2_def)
    ultimately have "a < pow2 (- ?b + 1)"
      by simp
    with l False show ?thesis
      by (simp add: floor_log2_def)
  qed
  then show "pow2 (floor_log2 a) \<le> a" and "a < pow2 (floor_log2 a + 1)"
    by simp_all
qed

lemma floor_log2_unique:
  assumes "pow2 k \<le> a" "a < pow2 (k + 1)"
  shows "floor_log2 a = k"
proof -
  have a: "0 < a"
    using assms(1) pow2_pos [of k] by linarith
  from floor_log2_bounds [OF a] assms
  have "pow2 k < pow2 (floor_log2 a + 1)" "pow2 (floor_log2 a) < pow2 (k + 1)"
    by linarith+
  then show ?thesis by simp
qed

lemma round_even_of_int [simp]: "round_even (of_int n) = n"
  by (simp add: round_even_def)

lemma round_even_nonneg: "0 \<le> q \<Longrightarrow> 0 \<le> round_even q"
  by (auto simp: round_even_def Let_def)

lemma round_even_le: "q \<le> of_int n \<Longrightarrow> round_even q \<le> n"
  unfolding round_even_def Let_def
  by (auto simp: floor_le_iff)

subsection \<open>Values that rounding leaves as they are\<close>

lemma pow2_neq_0 [simp]: "pow2 e \<noteq> 0"
  using pow2_pos [of e] by linarith

lemma abs_pow2 [simp]: "\<bar>pow2 e\<bar> = pow2 e"
  using pow2_pos [of e] by linarith

lemma pow2_1 [simp]: "pow2 1 = 2"
  by (simp add: pow2_def)

lemma floor_log2_scale:
  assumes "0 < a"
  shows "floor_log2 (a * pow2 e) = floor_log2 a + e"
proof (rule floor_log2_unique)
  from floor_log2_bounds [OF assms]
  show "pow2 (floor_log2 a + e) \<le> a * pow2 e" "a * pow2 e < pow2 (floor_log2 a + e + 1)"
    by (simp_all add: pow2_add)
qed

lemma floor_log2_int_le:
  assumes "0 < k" "k < 2 ^ 53"
  shows "0 \<le> floor_log2 (real_of_int k)" "floor_log2 (real_of_int k) \<le> 52"
proof -
  have a: "0 < real_of_int k" "1 \<le> real_of_int k" "real_of_int k < 2 ^ 53"
    using assms by simp_all
  from floor_log2_bounds [OF a(1)] a(2,3)
  have "pow2 0 < pow2 (floor_log2 (real_of_int k) + 1)" "pow2 (floor_log2 (real_of_int k)) < pow2 53"
    by simp_all
  then show "0 \<le> floor_log2 (real_of_int k)" "floor_log2 (real_of_int k) \<le> 52"
    unfolding pow2_less_iff by linarith+
qed

lemma pow2_diff_int:
  assumes "e \<le> e0"
  shows "pow2 e0 / pow2 e = real_of_int (2 ^ nat (e0 - e))"
proof -
  have "pow2 e0 = pow2 (e0 - e) * pow2 e"
    by (simp add: pow2_add [symmetric])
  then show ?thesis
    using assms by (simp add: pow2_nat)
qed

text \<open>A value \<open>k * 2^e0\<close> with \<open>|k| < 2^53\<close>, \<open>e0 \<ge> -1074\<close> and magnitude below \<open>2^1024\<close> rounds to itself.\<close>

lemma round64_exact_lt:
  assumes z: "z = real_of_int k * pow2 e0" and k: "\<bar>k\<bar> < 2 ^ 53" and e0: "- 1074 \<le> e0"
    and r: "\<bar>z\<bar> < 2 ^ 1024"
  shows "round64 z = Finite z"
proof (cases "k = 0")
  case True
  with z show ?thesis by (simp add: round64_def)
next
  case False
  define a where "a = \<bar>z\<bar>"
  define e where "e = max (floor_log2 a - 52) (- 1074)"
  define m where "m = round_even (a / pow2 e)"
  have kpos: "0 < \<bar>k\<bar>" using False by simp
  have a: "a = real_of_int \<bar>k\<bar> * pow2 e0"
    using z by (simp add: a_def abs_mult)
  have zn: "z \<noteq> 0"
    using z False by simp
  then have apos: "0 < a"
    by (simp add: a_def)
  have l: "0 \<le> floor_log2 (real_of_int \<bar>k\<bar>)" "floor_log2 (real_of_int \<bar>k\<bar>) \<le> 52"
    using floor_log2_int_le [OF kpos k] by simp_all
  have fl: "floor_log2 a = floor_log2 (real_of_int \<bar>k\<bar>) + e0"
    unfolding a using kpos by (simp add: floor_log2_scale)
  have e: "e \<le> e0"
    using l e0 fl by (simp add: e_def)
  have "a / pow2 e = real_of_int \<bar>k\<bar> * (pow2 e0 / pow2 e)"
    by (simp add: a)
  then have q: "a / pow2 e = real_of_int (\<bar>k\<bar> * 2 ^ nat (e0 - e))"
    by (simp only: pow2_diff_int [OF e] of_int_mult)
  have m: "m = \<bar>k\<bar> * 2 ^ nat (e0 - e)"
    unfolding m_def q by (rule round_even_of_int)
  have v: "real_of_int m * pow2 e = a"
    using q by (simp add: m field_simps)
  have "pow2 (floor_log2 a) \<le> a"
    using floor_log2_bounds(1) [OF apos] .
  with r have "pow2 (floor_log2 a) < pow2 1024"
    by (simp add: a_def)
  then have f: "floor_log2 a \<le> 1023"
    unfolding pow2_less_iff by simp
  then have e971: "e \<le> 971"
    by (simp add: e_def)
  have no: "\<not> (971 < e \<or> (e = 971 \<and> m = 2 ^ 53))"
  proof
    assume "971 < e \<or> (e = 971 \<and> m = 2 ^ 53)"
    with e971 have x: "e = 971" "m = 2 ^ 53"
      by linarith+
    from v have "a = real_of_int (2 ^ 53) * pow2 971"
      unfolding x by simp
    then have "a = 2 ^ 1024"
      by simp
    with r show False by (simp add: a_def)
  qed
  have "sgn z * a = z"
    by (simp add: a_def sgn_if)
  with no v zn show ?thesis
    unfolding round64_def Let_def a_def [symmetric] e_def [symmetric] m_def [symmetric]
    by simp
qed

lemma round64_exact:
  assumes z: "z = real_of_int k * pow2 e0" and k: "\<bar>k\<bar> \<le> 2 ^ 53" and e0: "- 1074 \<le> e0"
    and r: "\<bar>z\<bar> < 2 ^ 1024"
  shows "round64 z = Finite z"
proof (cases "\<bar>k\<bar> < 2 ^ 53")
  case True
  from round64_exact_lt [OF z True e0 r] show ?thesis .
next
  case False
  with k have "\<bar>k\<bar> = 2 ^ 53" by simp
  then have "k = 2 * (sgn k * 2 ^ 52)"
    by (auto simp: sgn_if abs_if split: if_splits)
  then have "real_of_int k = real_of_int (sgn k * 2 ^ 52) * 2"
    by (metis mult.commute of_int_mult of_int_numeral)
  then have "z = real_of_int (sgn k * 2 ^ 52) * pow2 (e0 + 1)"
    using z by (simp add: pow2_add)
  moreover have "\<bar>sgn k * 2 ^ 52\<bar> < (2::int) ^ 53"
    by (simp add: abs_mult sgn_if)
  moreover have "- 1074 \<le> e0 + 1"
    using e0 by simp
  ultimately show ?thesis
    using r by (rule round64_exact_lt)
qed

lemma round64_of_int: "\<bar>n\<bar> \<le> 2 ^ 53 \<Longrightarrow> round64 (real_of_int n) = Finite (real_of_int n)"
proof -
  assume n: "\<bar>n\<bar> \<le> 2 ^ 53"
  have "real_of_int \<bar>n\<bar> \<le> real_of_int (2 ^ 53)"
    using n by (rule of_int_le_iff [THEN iffD2])
  then have "\<bar>real_of_int n\<bar> < 2 ^ 1024"
    by simp
  with round64_exact [of "real_of_int n" n 0] n show ?thesis
    by simp
qed

subsection \<open>Rounding keeps the sign and gives a value of the type\<close>

lemma pow2_nonneg [simp]: "0 \<le> pow2 e"
  using pow2_pos [of e] by linarith

lemma round64_parts:
  assumes "z \<noteq> 0"
  obtains m e where "0 \<le> m" "m \<le> 2 ^ 53" "- 1074 \<le> e"
    and "round64 z = (if 971 < e \<or> (e = 971 \<and> m = 2 ^ 53) then (if 0 < z then PInf else NInf)
                      else Finite (sgn z * (real_of_int m * pow2 e)))"
proof -
  define a where "a = \<bar>z\<bar>"
  define e where "e = max (floor_log2 a - 52) (- 1074)"
  define m where "m = round_even (a / pow2 e)"
  have apos: "0 < a"
    using assms by (simp add: a_def)
  have "0 \<le> a / pow2 e"
    using apos pow2_pos [of e] by (intro divide_nonneg_pos) simp_all
  then have m0: "0 \<le> m"
    unfolding m_def by (rule round_even_nonneg)
  have "floor_log2 a + 1 \<le> e + 53"
    by (simp add: e_def)
  then have "pow2 (floor_log2 a + 1) \<le> pow2 (e + 53)"
    by simp
  with floor_log2_bounds(2) [OF apos] have "a < pow2 (e + 53)"
    by linarith
  then have "a < 2 ^ 53 * pow2 e"
    by (simp add: pow2_add)
  then have "a / pow2 e \<le> real_of_int (2 ^ 53)"
    by (simp add: field_simps)
  then have m1: "m \<le> 2 ^ 53"
    unfolding m_def by (rule round_even_le)
  have e: "- 1074 \<le> e"
    by (simp add: e_def)
  have "round64 z = (if 971 < e \<or> (e = 971 \<and> m = 2 ^ 53) then (if 0 < z then PInf else NInf)
                      else Finite (sgn z * (real_of_int m * pow2 e)))"
    using assms
    unfolding round64_def Let_def a_def [symmetric] e_def [symmetric] m_def [symmetric]
    by simp
  with m0 m1 e show ?thesis
    by (rule that)
qed

lemma round64_nonneg:
  assumes "0 \<le> z"
  shows "round64 z = PInf \<or> (\<exists>v. round64 z = Finite v \<and> 0 \<le> v)"
proof (cases "z = 0")
  case True
  then show ?thesis by (simp add: round64_def)
next
  case False
  with assms have p: "0 < z" by simp
  from False obtain m e where "0 \<le> m"
    and "round64 z = (if 971 < e \<or> (e = 971 \<and> m = 2 ^ 53) then (if 0 < z then PInf else NInf)
                      else Finite (sgn z * (real_of_int m * pow2 e)))"
    by (rule round64_parts)
  with p show ?thesis
    by (auto simp: sgn_if zero_le_mult_iff)
qed

lemma round64_closed:
  assumes "round64 z = Finite v"
  shows "round64 v = Finite v"
proof (cases "z = 0")
  case True
  with assms show ?thesis by (simp add: round64_def)
next
  case False
  from False obtain m e where m: "0 \<le> m" "m \<le> 2 ^ 53" and e: "- 1074 \<le> e"
    and r: "round64 z = (if 971 < e \<or> (e = 971 \<and> m = 2 ^ 53) then (if 0 < z then PInf else NInf)
                      else Finite (sgn z * (real_of_int m * pow2 e)))"
    by (rule round64_parts)
  from r assms have no: "\<not> (971 < e \<or> (e = 971 \<and> m = 2 ^ 53))"
    by (auto split: if_splits)
  with r assms have v: "v = sgn z * (real_of_int m * pow2 e)"
    by (auto split: if_splits)
  define k where "k = (if 0 < z then m else - m)"
  have vk: "v = real_of_int k * pow2 e"
    using v False by (simp add: k_def sgn_if)
  have kb: "\<bar>k\<bar> \<le> 2 ^ 53"
    using m by (simp add: k_def)
  have av: "\<bar>v\<bar> = real_of_int m * pow2 e"
    using vk m by (simp add: k_def abs_mult)
  have "real_of_int m * pow2 e < 2 ^ 1024"
  proof (cases "e = 971")
    case True
    with no m have "m < 2 ^ 53" by simp
    then have "m \<le> 2 ^ 53 - 1" by simp
    then have "real_of_int m \<le> real_of_int (2 ^ 53 - 1)"
      by (rule of_int_le_iff [THEN iffD2])
    then have "real_of_int m * pow2 971 \<le> real_of_int (2 ^ 53 - 1) * pow2 971"
      by (simp add: mult_right_mono)
    also have "\<dots> < 2 ^ 1024"
      by simp
    finally show ?thesis using True by simp
  next
    case False
    with no have "e \<le> 970" by simp
    then have "pow2 e \<le> pow2 970" by (simp only: pow2_le_iff)
    moreover have "real_of_int m \<le> real_of_int (2 ^ 53)"
      using m(2) by (rule of_int_le_iff [THEN iffD2])
    moreover have "0 \<le> real_of_int m"
      using m(1) by simp
    ultimately have "real_of_int m * pow2 e \<le> real_of_int (2 ^ 53) * pow2 970"
      by (intro mult_mono) simp_all
    also have "\<dots> < 2 ^ 1024"
      by simp
    finally show ?thesis .
  qed
  with av have "\<bar>v\<bar> < 2 ^ 1024"
    by simp
  with vk kb e show ?thesis
    by (rule round64_exact)
qed

lemma is_float64_round64 [simp]: "is_float64 (round64 z)"
  by (cases "round64 z") (simp_all add: round64_closed)

subsection \<open>Signs of sums and products, exact results on integers\<close>

lemma fge_round64: "0 \<le> z \<Longrightarrow> fge (round64 z) (Finite 0)"
  using round64_nonneg [of z] by auto

lemma fadd_nonneg:
  assumes "fge x (Finite 0)" "fge y (Finite 0)"
  shows "fge (fadd x y) (Finite 0)"
proof (cases x)
  case (Finite a)
  show ?thesis
  proof (cases y)
    case y: (Finite b)
    with Finite assms have "0 \<le> a + b" by simp
    then show ?thesis
      using Finite y by (simp add: fge_round64)
  qed (use Finite assms in simp_all)
qed (use assms in \<open>cases y; simp\<close>)+

lemma fmul_nonneg:
  assumes "fge x (Finite 0)" "0 < c"
  shows "fge (fmul x (Finite c)) (Finite 0)"
proof (cases x)
  case (Finite a)
  with assms have "0 \<le> a * c" by simp
  then show ?thesis
    using Finite by (simp add: fge_round64)
qed (use assms in \<open>simp_all add: inf_times_def\<close>)

lemma fge_not_flt: "fge b (Finite 0) \<Longrightarrow> \<not> flt b (Finite 0)"
  by (cases b) auto

lemma not_flt_cases: "\<not> flt b (Finite 0) \<Longrightarrow> b = NaN \<or> fge b (Finite 0)"
  by (cases b) auto

lemma finite_nonneg_fge: "finite_nonneg a \<Longrightarrow> fge a (Finite 0)"
  by (cases a) auto

lemma is_float64_fadd [simp]: "is_float64 (fadd x y)"
  by (cases x; cases y) simp_all

lemma is_float64_fsub [simp]: "is_float64 (fsub x y)"
  by (simp add: fsub_def)

lemma fsub_zero: "is_float64 b \<Longrightarrow> fsub b (Finite 0) = b"
  by (cases b) (simp_all add: fsub_def)

lemma fsub_int:
  assumes "0 \<le> a" "a \<le> b" "b \<le> 2 ^ 53"
  shows "fsub (Finite (real_of_int b)) (Finite (real_of_int a)) = Finite (real_of_int (b - a))"
proof -
  have "\<bar>b - a\<bar> \<le> 2 ^ 53"
    using assms by simp
  from round64_of_int [OF this] show ?thesis
    by (simp add: fsub_def)
qed

lemma fmul_int:
  assumes "\<bar>a * c\<bar> \<le> 2 ^ 53"
  shows "fmul (Finite (real_of_int a)) (Finite (real_of_int c)) = Finite (real_of_int (a * c))"
  using round64_of_int [OF assms] by simp

lemma fadd_int:
  assumes "\<bar>a + c\<bar> \<le> 2 ^ 53"
  shows "fadd (Finite (real_of_int a)) (Finite (real_of_int c)) = Finite (real_of_int (a + c))"
  using round64_of_int [OF assms] by simp

text \<open>A result of \<open>2^1024\<close> or more is the positive infinity.\<close>

lemma round64_overflow:
  assumes "2 ^ 1024 \<le> z"
  shows "round64 z = PInf"
proof -
  have z: "0 < z"
    using assms by (rule less_le_trans [rotated]) simp
  have "pow2 1024 \<le> z"
    using assms by simp
  with floor_log2_bounds(2) [OF z] have "pow2 1024 < pow2 (floor_log2 z + 1)"
    by linarith
  then have "1023 < floor_log2 z"
    unfolding pow2_less_iff by simp
  with z show ?thesis
    by (simp add: round64_def Let_def)
qed

section \<open>Properties of the wheel and of the colours\<close>

declare games_loop.simps [simp del] games_loop_trace.simps [simp del]

lemma contains_set: "contains slice val = (val \<in> set slice)"
  by (induction slice) auto

lemma wheel_numbers: "Numbers NewRouletteWheel = [1..36] @ [0, 0]"
  by code_simp

lemma count_list_upto:
  "count_list [i..j] (v::int) = (if i \<le> v \<and> v \<le> j then 1 else 0)"
proof (induction i j rule: upto.induct)
  case (1 i j)
  show ?case
  proof (cases "i \<le> j")
    case True
    then have "[i..j] = i # [i + 1..j]"
      by (simp add: upto_rec1)
    with 1 True show ?thesis by auto
  next
    case False
    then show ?thesis by simp
  qed
qed

lemma all_spins: "map (Spin NewRouletteWheel) [0..<38] = Numbers NewRouletteWheel"
  by code_simp

lemma length_filter_count_list:
  "length (filter (\<lambda>r. f r = v) xs) = count_list (map f xs) v"
  by (induction xs) auto

text \<open>
  Claim C6. The wheel has exactly 38 pockets. The value 0 sits in two of them and each
  of 1 to 36 in one; no other value occurs. So of the 38 indices \<^verbatim>\<open>Spin\<close> can draw, two
  give the pocket 0 and one gives each of 1 to 36: a number bet on 0 matches 2 of 38
  pockets, a number bet on 1 to 36 matches 1 of 38.
\<close>

theorem wheel_has_38_pockets_zero_twice:
  "length (Numbers NewRouletteWheel) = 38
   \<and> count_list (Numbers NewRouletteWheel) v
       = (if v = 0 then 2 else if 1 \<le> v \<and> v \<le> 36 then 1 else 0)
   \<and> length (filter (\<lambda>r. Spin NewRouletteWheel r = v) [0..<38])
       = (if v = 0 then 2 else if 1 \<le> v \<and> v \<le> 36 then 1 else 0)"
  unfolding length_filter_count_list all_spins
  by (simp add: wheel_numbers count_list_upto)

lemma red_not_black: "list_all (\<lambda>x. \<not> contains blackNumbers x) redNumbers"
  by code_simp

text \<open>
  Claim C8. No pocket passes both the red and the black membership test, pocket 0 passes
  neither, and each of the two lists has 18 members, all different.
\<close>

theorem red_black_disjoint_zero_in_neither:
  "\<not> (contains redNumbers pocket \<and> contains blackNumbers pocket)
   \<and> \<not> contains redNumbers 0 \<and> \<not> contains blackNumbers 0
   \<and> length redNumbers = 18 \<and> length blackNumbers = 18
   \<and> distinct redNumbers \<and> distinct blackNumbers"
proof -
  have "\<not> (contains redNumbers pocket \<and> contains blackNumbers pocket)"
    using red_not_black by (auto simp: list_all_iff contains_set)
  moreover have "\<not> contains redNumbers 0"
    by code_simp
  moreover have "\<not> contains blackNumbers 0"
    by code_simp
  moreover have "length redNumbers = 18" "length blackNumbers = 18"
    by (simp_all add: redNumbers_def blackNumbers_def)
  moreover have "distinct redNumbers" "distinct blackNumbers"
    by (simp_all add: redNumbers_def blackNumbers_def)
  ultimately show ?thesis by blast
qed

section \<open>Properties of the simulator\<close>

lemma games_loop_no_bets: "games_loop rnd wheel [] numGames i bankroll = bankroll"
proof (induction rnd wheel "[] :: Bet list" numGames i bankroll rule: games_loop.induct)
  case (1 rnd wheel numGames i bankroll)
  then show ?case
    by (subst games_loop.simps) simp
qed

lemma games_loop_stop:
  "\<not> i < numGames \<Longrightarrow> games_loop rnd wheel bets numGames i bankroll = bankroll"
  by (subst games_loop.simps) simp

text \<open>
  Claim C4. With zero games the simulator returns the initial bankroll of any strategy,
  and with an empty bet list it returns the initial bankroll for any number of games,
  whatever the wheel gives.
\<close>

theorem simulate_zero_games_or_no_bets:
  "SimulateRoulette rnd strategy 0 = InitialBankroll strategy
   \<and> SimulateRoulette rnd \<lparr>InitialBankroll = bankroll, Bets = []\<rparr> numGames = bankroll"
  by (simp add: SimulateRoulette_def games_loop_no_bets games_loop_stop)

subsection \<open>Settlement\<close>

lemma smod_2_eq_0_iff_even: "(w::int) smod 2 = 0 \<longleftrightarrow> even w"
  by (cases "0 < w"; cases "w = 0") (auto simp: smod_int_alt_def sgn_if)

lemma settle_table:
  "settle bet pocket bankroll =
     (if wins_spec (Type bet) (Value bet) pocket
      then fadd bankroll (payout_spec (Type bet) (Amount bet)) else bankroll)"
  by (auto simp: settle_def wins_spec_def payout_spec_def contains_set smod_2_eq_0_iff_even
      redNumbers_def blackNumbers_def)

lemma zero_pockets: "Spin NewRouletteWheel 36 = 0" "Spin NewRouletteWheel 37 = 0"
  by code_simp+

lemma place_bet_table:
  "place_bet bet pocket bankroll =
     (if flt bankroll (Amount bet) then bankroll
      else if wins_spec (Type bet) (Value bet) pocket
      then fadd (fsub bankroll (Amount bet)) (payout_spec (Type bet) (Amount bet))
      else fsub bankroll (Amount bet))"
  by (simp add: place_bet_def settle_table)

lemma settle_zero_pocket:
  "settle \<lparr>Type = ''even'', Value = v, Amount = a\<rparr> 0 bankroll = bankroll"
  "settle \<lparr>Type = ''odd'', Value = v, Amount = a\<rparr> 0 bankroll = bankroll"
  "settle \<lparr>Type = ''red'', Value = v, Amount = a\<rparr> 0 bankroll = bankroll"
  "settle \<lparr>Type = ''black'', Value = v, Amount = a\<rparr> 0 bankroll = bankroll"
  by (simp_all add: settle_table wins_spec_def)

lemma settle_number_zero:
  "settle \<lparr>Type = ''number'', Value = 0, Amount = a\<rparr> (Spin NewRouletteWheel 36) bankroll
     = fadd bankroll (fmul a (Finite 36))"
  "settle \<lparr>Type = ''number'', Value = 0, Amount = a\<rparr> (Spin NewRouletteWheel 37) bankroll
     = fadd bankroll (fmul a (Finite 36))"
  by (simp_all add: settle_def zero_pockets)

text \<open>The factor of the payout table: 36 for a number bet, 2 for the others.\<close>

lemma place_bet_int:
  assumes "0 \<le> a" "a \<le> b" "b + 35 * a \<le> 2 ^ 53"
  shows "place_bet \<lparr>Type = kind, Value = v, Amount = Finite (real_of_int a)\<rparr> pocket
           (Finite (real_of_int b))
         = Finite (real_of_int
             (if wins_spec kind v pocket
              then b - a + (if kind = ''number'' then 36 else 2) * a else b - a))"
proof -
  have b53: "b \<le> 2 ^ 53"
    using assms by simp
  have d: "fsub (Finite (real_of_int b)) (Finite (real_of_int a)) = Finite (real_of_int (b - a))"
    using assms(1,2) b53 by (rule fsub_int)
  have nf: "\<not> flt (Finite (real_of_int b)) (Finite (real_of_int a))"
    using assms(2) by simp
  have m36: "fmul (Finite (real_of_int a)) (Finite 36) = Finite (real_of_int (36 * a))"
    using fmul_int [of a 36] assms by (simp add: mult.commute)
  have m2: "fmul (Finite (real_of_int a)) (Finite 2) = Finite (real_of_int (2 * a))"
    using fmul_int [of a 2] assms by (simp add: mult.commute)
  have s36: "fadd (Finite (real_of_int (b - a))) (Finite (real_of_int (36 * a)))
      = Finite (real_of_int (b - a + 36 * a))"
    using assms by (intro fadd_int) simp
  have s2: "fadd (Finite (real_of_int (b - a))) (Finite (real_of_int (2 * a)))
      = Finite (real_of_int (b - a + 2 * a))"
    using assms by (intro fadd_int) simp
  show ?thesis
  proof (cases "wins_spec kind v pocket")
    case False
    then show ?thesis
      unfolding place_bet_table by (simp only: Bet.select_convs nf d if_False)
  next
    case True
    show ?thesis
    proof (cases "kind = ''number''")
      case number: True
      from True show ?thesis
        unfolding place_bet_table number payout_spec_def
        by (simp only: Bet.select_convs nf d m36 s36 if_False if_True simp_thms)
    next
      case other: False
      from True other show ?thesis
        unfolding place_bet_table payout_spec_def
        by (simp only: Bet.select_convs nf d m2 s2 if_False if_True simp_thms)
    qed
  qed
qed

text \<open>
  Two placed bets where rounding shows, on values as \<^verbatim>\<open>strconv.ParseFloat\<close> gives them.
  With a bankroll of \<^verbatim>\<open>0.3\<close> and a winning red bet of \<^verbatim>\<open>0.1\<close>, the debit gives
  \<^verbatim>\<open>0.19999999999999998\<close> and the credit of twice \<^verbatim>\<open>0.1\<close> gives \<^verbatim>\<open>0.4\<close>. With a bankroll and
  a winning number bet of \<^verbatim>\<open>1e308\<close>, the payout of 36 times the amount overflows.
\<close>

lemma place_bet_rounds:
  "place_bet \<lparr>Type = ''red'', Value = 0, Amount = Finite (3602879701896397 / 2 ^ 55)\<rparr> 1
     (Finite (5404319552844595 / 2 ^ 54))
   = Finite (3602879701896397 / 2 ^ 53)"
  by code_simp

lemma place_bet_overflows:
  "place_bet \<lparr>Type = ''number'', Value = 5, Amount = Finite (5010420900022432 * 2 ^ 971)\<rparr> 5
     (Finite (5010420900022432 * 2 ^ 971))
   = PInf"
proof -
  have "(2::real) ^ 1024 \<le> 5010420900022432 * 2 ^ 971 * 36"
    by simp
  then have "round64 (5010420900022432 * 2 ^ 971 * 36) = PInf"
    by (rule round64_overflow)
  then show ?thesis
    by (simp add: place_bet_def settle_def fsub_def round64_def)
qed

text \<open>
  Claim C2. A bet that is placed (the bankroll is not below its amount) is debited, and
  then credited exactly when the payout table of the specification says it wins: 36
  times the amount for a number bet whose value is the winning pocket, twice the amount
  for even (pocket even and not 0), odd (pocket odd), red and black (pocket in the
  respective set). A bet that loses keeps the debit and gets nothing. The debit, the
  product and the credit are Go's \<^verbatim>\<open>float64\<close> operations; on integer amounts they are
  exact, so a bankroll \<open>b\<close> and an amount \<open>a\<close> with \<open>0 \<le> a \<le> b\<close> and \<open>b + 35 a \<le> 2^53\<close> give
  \<open>b - a + 36 a\<close>, \<open>b - a + 2 a\<close> or \<open>b - a\<close>. At pocket 0 an even, odd, red or black bet
  is never credited, and a number bet on 0 is credited on both zero pockets of the
  wheel, the indices 36 and 37.
\<close>

theorem settlement_follows_payout_table:
  "place_bet bet pocket bankroll =
     (if flt bankroll (Amount bet) then bankroll
      else if wins_spec (Type bet) (Value bet) pocket
      then fadd (fsub bankroll (Amount bet)) (payout_spec (Type bet) (Amount bet))
      else fsub bankroll (Amount bet))
   \<and> (0 \<le> a \<and> a \<le> b \<and> b + 35 * a \<le> 2 ^ 53 \<longrightarrow>
        place_bet \<lparr>Type = kind, Value = v, Amount = Finite (real_of_int a)\<rparr> pocket
          (Finite (real_of_int b))
        = Finite (real_of_int
            (if wins_spec kind v pocket
             then b - a + (if kind = ''number'' then 36 else 2) * a else b - a)))
   \<and> settle \<lparr>Type = ''even'', Value = v, Amount = x\<rparr> 0 bankroll = bankroll
   \<and> settle \<lparr>Type = ''odd'', Value = v, Amount = x\<rparr> 0 bankroll = bankroll
   \<and> settle \<lparr>Type = ''red'', Value = v, Amount = x\<rparr> 0 bankroll = bankroll
   \<and> settle \<lparr>Type = ''black'', Value = v, Amount = x\<rparr> 0 bankroll = bankroll
   \<and> settle \<lparr>Type = ''number'', Value = 0, Amount = x\<rparr> (Spin NewRouletteWheel 36) bankroll
       = fadd bankroll (fmul x (Finite 36))
   \<and> settle \<lparr>Type = ''number'', Value = 0, Amount = x\<rparr> (Spin NewRouletteWheel 37) bankroll
       = fadd bankroll (fmul x (Finite 36))"
proof (intro conjI impI)
  assume "0 \<le> a \<and> a \<le> b \<and> b + 35 * a \<le> 2 ^ 53"
  then show "place_bet \<lparr>Type = kind, Value = v, Amount = Finite (real_of_int a)\<rparr> pocket
          (Finite (real_of_int b))
        = Finite (real_of_int
            (if wins_spec kind v pocket
             then b - a + (if kind = ''number'' then 36 else 2) * a else b - a))"
    by (intro place_bet_int) simp_all
qed (rule place_bet_table settle_zero_pocket settle_number_zero)+

theorem settlement_follows_payout_table_witness:
  "place_bet \<lparr>Type = ''number'', Value = 7, Amount = Finite 10\<rparr> 7 (Finite 100) = Finite 450
   \<and> place_bet \<lparr>Type = ''number'', Value = 7, Amount = Finite 10\<rparr> 8 (Finite 100) = Finite 90
   \<and> place_bet \<lparr>Type = ''red'', Value = 0, Amount = Finite 10\<rparr> 1 (Finite 100) = Finite 110
   \<and> place_bet \<lparr>Type = ''red'', Value = 0, Amount = Finite 10\<rparr> 2 (Finite 100) = Finite 90
   \<and> place_bet \<lparr>Type = ''even'', Value = 0, Amount = Finite 10\<rparr> 0 (Finite 100) = Finite 90
   \<and> place_bet \<lparr>Type = ''red'', Value = 0, Amount = Finite (3602879701896397 / 2 ^ 55)\<rparr> 1
         (Finite (5404319552844595 / 2 ^ 54))
       = Finite (3602879701896397 / 2 ^ 53)
   \<and> place_bet \<lparr>Type = ''number'', Value = 5, Amount = Finite (5010420900022432 * 2 ^ 971)\<rparr> 5
         (Finite (5010420900022432 * 2 ^ 971))
       = PInf"
proof -
  note t = settlement_follows_payout_table [THEN conjunct2, THEN conjunct1, rule_format]
  have h: "(0::int) \<le> 10 \<and> (10::int) \<le> 100 \<and> (100::int) + 35 * 10 \<le> 2 ^ 53"
    by simp
  have "place_bet \<lparr>Type = ''number'', Value = 7, Amount = Finite 10\<rparr> 7 (Finite 100) = Finite 450"
    using t [of 10 100 "''number''" 7 7, OF h] by (simp add: wins_spec_def)
  moreover have "place_bet \<lparr>Type = ''number'', Value = 7, Amount = Finite 10\<rparr> 8 (Finite 100) = Finite 90"
    using t [of 10 100 "''number''" 7 8, OF h] by (simp add: wins_spec_def)
  moreover have "place_bet \<lparr>Type = ''red'', Value = 0, Amount = Finite 10\<rparr> 1 (Finite 100) = Finite 110"
    using t [of 10 100 "''red''" 0 1, OF h] by (simp add: wins_spec_def)
  moreover have "place_bet \<lparr>Type = ''red'', Value = 0, Amount = Finite 10\<rparr> 2 (Finite 100) = Finite 90"
    using t [of 10 100 "''red''" 0 2, OF h] by (simp add: wins_spec_def)
  moreover have "place_bet \<lparr>Type = ''even'', Value = 0, Amount = Finite 10\<rparr> 0 (Finite 100) = Finite 90"
    using t [of 10 100 "''even''" 0 0, OF h] by (simp add: wins_spec_def)
  ultimately show ?thesis
    using place_bet_rounds place_bet_overflows by (intro conjI)
qed

subsection \<open>Bets of an unrecognized type\<close>

lemma settle_unrecognized:
  "Type bet \<notin> set recognized_types \<Longrightarrow> settle bet pocket bankroll = bankroll"
  by (simp add: settle_def recognized_types_def)

lemma place_bet_unrecognized:
  "Type bet \<notin> set recognized_types \<Longrightarrow>
   place_bet bet pocket bankroll
     = (if flt bankroll (Amount bet) then bankroll else fsub bankroll (Amount bet))"
  by (simp add: place_bet_def settle_unrecognized)

text \<open>The bankroll stays a value of the type, whatever the bets are.\<close>

lemma settle_cases:
  "settle bet pocket bankroll = bankroll
   \<or> settle bet pocket bankroll = fadd bankroll (fmul (Amount bet) (Finite 36))
   \<or> settle bet pocket bankroll = fadd bankroll (fmul (Amount bet) (Finite 2))"
  by (simp add: settle_def)

lemma is_float64_settle: "is_float64 b \<Longrightarrow> is_float64 (settle bet pocket b)"
  using settle_cases [of bet pocket b] by auto

lemma is_float64_place_bet: "is_float64 b \<Longrightarrow> is_float64 (place_bet bet pocket b)"
  by (simp add: place_bet_def is_float64_settle)

lemma is_float64_bets_loop: "is_float64 b \<Longrightarrow> is_float64 (bets_loop bets pocket b)"
  by (induction bets arbitrary: b) (simp_all add: is_float64_place_bet)

lemma bets_loop_append:
  "bets_loop (xs @ ys) pocket bankroll = bets_loop ys pocket (bets_loop xs pocket bankroll)"
  by (induction xs arbitrary: bankroll) simp_all

lemma bets_loop_drop_noop:
  assumes "\<And>w b. is_float64 b \<Longrightarrow> place_bet bet w b = b" and "is_float64 bankroll"
  shows "bets_loop (xs @ bet # ys) pocket bankroll = bets_loop (xs @ ys) pocket bankroll"
  using assms(1) [OF is_float64_bets_loop [OF assms(2), of xs pocket]]
  by (simp add: bets_loop_append)

lemma games_loop_cong_bets:
  assumes "\<And>w b. is_float64 b \<Longrightarrow> bets_loop bets w b = bets_loop bets' w b"
    and "is_float64 b"
  shows "games_loop rnd wheel bets n i b = games_loop rnd wheel bets' n i b"
  using assms
proof (induction rnd wheel bets n i b rule: games_loop.induct)
  case (1 rnd wheel bets n i b)
  show ?case
  proof (cases "i < n")
    case True
    let ?w = "Spin wheel (rnd (nat i))"
    have v: "is_float64 (bets_loop bets ?w b)"
      using "1.prems"(2) by (rule is_float64_bets_loop)
    have e: "bets_loop bets ?w b = bets_loop bets' ?w b"
      using "1.prems" by simp
    from "1.IH" [OF True "1.prems"(1) v] True e show ?thesis
      by (subst games_loop.simps, subst (2) games_loop.simps) simp
  next
    case False
    then show ?thesis
      by (simp add: games_loop_stop)
  qed
qed

text \<open>
  The debit is a rounded difference. Between integers up to \<open>2^53\<close> it is exact. Above,
  it need not change the bankroll at all: \<^verbatim>\<open>1e16 - 1\<close> lies half way between two values
  of the type and rounds back to \<^verbatim>\<open>1e16\<close>.
\<close>

lemma debit_rounds_back:
  "place_bet \<lparr>Type = ''foo'', Value = 0, Amount = Finite 1\<rparr> 5 (Finite 10000000000000000)
     = Finite 10000000000000000"
  by code_simp

text \<open>
  Claim C1, as stated, fails: the debit comes before the \<^verbatim>\<open>switch\<close>, so a bet of an
  unrecognized type is placed and lost. With a bankroll of 100 and the single bet
  \<open>(foo, 0, 10)\<close>, one game ends at 90, and at 100 with the bet removed.
\<close>

theorem unrecognized_bet_alters_bankroll:
  "''foo'' \<notin> set recognized_types
   \<and> SimulateRoulette (always 0)
        \<lparr>InitialBankroll = Finite 100,
         Bets = [\<lparr>Type = ''foo'', Value = 0, Amount = Finite 10\<rparr>]\<rparr> 1
      = Finite 90
   \<and> SimulateRoulette (always 0) \<lparr>InitialBankroll = Finite 100, Bets = []\<rparr> 1 = Finite 100"
  by code_simp

text \<open>
  Claim C1, amended. A bet whose type is not one of the five recognized strings never
  wins: whatever the winning pocket, placing it leaves the bankroll as it is when the
  bankroll is below the amount, and otherwise replaces the bankroll by the \<^verbatim>\<open>float64\<close>
  difference of bankroll and amount, with no credit. For an integer bankroll \<open>b \<le> 2^53\<close>
  and an integer amount \<open>0 \<le> a \<le> b\<close> that difference is exactly \<open>b - a\<close>; in general it
  is \<open>b - a\<close> rounded. The simulator returns the same bankroll as for the strategy
  without that bet when the bet's amount is 0.
\<close>

theorem unrecognized_bet_debited_never_credited:
  assumes "Type bet \<notin> set recognized_types"
  shows "place_bet bet pocket bankroll
           = (if flt bankroll (Amount bet) then bankroll else fsub bankroll (Amount bet))
     \<and> (Amount bet = Finite (real_of_int a) \<and> 0 \<le> a \<and> a \<le> b \<and> b \<le> 2 ^ 53 \<longrightarrow>
          place_bet bet pocket (Finite (real_of_int b)) = Finite (real_of_int (b - a)))
     \<and> (Amount bet = Finite 0 \<and> is_float64 initial \<longrightarrow>
          SimulateRoulette rnd \<lparr>InitialBankroll = initial, Bets = before @ bet # after\<rparr> numGames
            = SimulateRoulette rnd \<lparr>InitialBankroll = initial, Bets = before @ after\<rparr> numGames)"
proof (intro conjI impI)
  show "place_bet bet pocket bankroll
           = (if flt bankroll (Amount bet) then bankroll else fsub bankroll (Amount bet))"
    using assms by (rule place_bet_unrecognized)
next
  assume h: "Amount bet = Finite (real_of_int a) \<and> 0 \<le> a \<and> a \<le> b \<and> b \<le> 2 ^ 53"
  then have "fsub (Finite (real_of_int b)) (Finite (real_of_int a)) = Finite (real_of_int (b - a))"
    by (intro fsub_int) simp_all
  with h show "place_bet bet pocket (Finite (real_of_int b)) = Finite (real_of_int (b - a))"
    by (simp add: place_bet_unrecognized [OF assms])
next
  assume z: "Amount bet = Finite 0 \<and> is_float64 initial"
  have "place_bet bet w b = b" if "is_float64 b" for w b
    using assms z that by (simp add: place_bet_unrecognized fsub_zero)
  then have "bets_loop (before @ bet # after) w b = bets_loop (before @ after) w b"
    if "is_float64 b" for w b
    using that by (rule bets_loop_drop_noop)
  then show "SimulateRoulette rnd \<lparr>InitialBankroll = initial, Bets = before @ bet # after\<rparr> numGames
            = SimulateRoulette rnd \<lparr>InitialBankroll = initial, Bets = before @ after\<rparr> numGames"
    unfolding SimulateRoulette_def Strategy.simps using z by (intro games_loop_cong_bets) simp_all
qed

theorem unrecognized_bet_debited_never_credited_witness:
  "''foo'' \<notin> set recognized_types
   \<and> place_bet \<lparr>Type = ''foo'', Value = 0, Amount = Finite 10\<rparr> 5 (Finite 100) = Finite 90
   \<and> place_bet \<lparr>Type = ''foo'', Value = 0, Amount = Finite 1\<rparr> 5 (Finite 10000000000000000)
       = fsub (Finite 10000000000000000) (Finite 1)
   \<and> fsub (Finite 10000000000000000) (Finite 1) = Finite 10000000000000000
   \<and> is_float64 (Finite 100)
   \<and> SimulateRoulette (always 3)
        \<lparr>InitialBankroll = Finite 100,
         Bets = [\<lparr>Type = ''foo'', Value = 0, Amount = Finite 0\<rparr>,
                 \<lparr>Type = ''red'', Value = 0, Amount = Finite 10\<rparr>]\<rparr> 2
       = SimulateRoulette (always 3)
           \<lparr>InitialBankroll = Finite 100,
            Bets = [\<lparr>Type = ''red'', Value = 0, Amount = Finite 10\<rparr>]\<rparr> 2
   \<and> SimulateRoulette (always 3)
        \<lparr>InitialBankroll = Finite 100,
         Bets = [\<lparr>Type = ''red'', Value = 0, Amount = Finite 10\<rparr>]\<rparr> 2 = Finite 80"
proof -
  have u: "''foo'' \<notin> set recognized_types"
    by (simp add: recognized_types_def)
  have f: "is_float64 (Finite 100)"
    using round64_of_int [of 100] by simp
  note t = unrecognized_bet_debited_never_credited
  have "place_bet \<lparr>Type = ''foo'', Value = 0, Amount = Finite 10\<rparr> 5 (Finite 100) = Finite 90"
    using t [of "\<lparr>Type = ''foo'', Value = 0, Amount = Finite 10\<rparr>" 5 _ 10 100,
        THEN conjunct2, THEN conjunct1] u
    by simp
  moreover have "place_bet \<lparr>Type = ''foo'', Value = 0, Amount = Finite 1\<rparr> 5 (Finite 10000000000000000)
       = fsub (Finite 10000000000000000) (Finite 1)"
    using t [of "\<lparr>Type = ''foo'', Value = 0, Amount = Finite 1\<rparr>" 5 "Finite 10000000000000000",
        THEN conjunct1] u
    by simp
  moreover have "fsub (Finite 10000000000000000) (Finite 1) = Finite 10000000000000000"
    by code_simp
  moreover have "SimulateRoulette (always 3)
        \<lparr>InitialBankroll = Finite 100,
         Bets = [\<lparr>Type = ''foo'', Value = 0, Amount = Finite 0\<rparr>,
                 \<lparr>Type = ''red'', Value = 0, Amount = Finite 10\<rparr>]\<rparr> 2
       = SimulateRoulette (always 3)
           \<lparr>InitialBankroll = Finite 100,
            Bets = [\<lparr>Type = ''red'', Value = 0, Amount = Finite 10\<rparr>]\<rparr> 2"
    using t [of "\<lparr>Type = ''foo'', Value = 0, Amount = Finite 0\<rparr>" _ _ _ _ "Finite 100" "always 3"
               "[]" "[\<lparr>Type = ''red'', Value = 0, Amount = Finite 10\<rparr>]" 2,
        THEN conjunct2, THEN conjunct2] u f
    by simp
  moreover have "SimulateRoulette (always 3)
        \<lparr>InitialBankroll = Finite 100,
         Bets = [\<lparr>Type = ''red'', Value = 0, Amount = Finite 10\<rparr>]\<rparr> 2 = Finite 80"
    by code_simp
  ultimately show ?thesis
    using u f by (intro conjI)
qed

subsection \<open>The bankroll does not go below zero\<close>

lemma credit_nonneg:
  assumes "fge b (Finite 0)" "fge a (Finite 0)"
  shows "fge (fadd b (fmul a (Finite 36))) (Finite 0)"
    and "fge (fadd b (fmul a (Finite 2))) (Finite 0)"
  using assms by (simp_all add: fadd_nonneg fmul_nonneg)

lemma settle_nonneg:
  assumes "fge b (Finite 0)" "finite_nonneg (Amount bet)"
  shows "fge (settle bet pocket b) (Finite 0)"
  using settle_cases [of bet pocket b]
    credit_nonneg [OF assms(1) finite_nonneg_fge [OF assms(2)]] assms
  by auto

lemma debit_nonneg:
  assumes "fge b (Finite 0)" "finite_nonneg a" "\<not> flt b a"
  shows "fge (fsub b a) (Finite 0)"
proof (cases a)
  case a: (Finite y)
  show ?thesis
  proof (cases b)
    case (Finite x)
    with a assms have "0 \<le> x + - y" by simp
    then show ?thesis
      using Finite a by (simp add: fsub_def fge_round64)
  qed (use a assms in \<open>simp_all add: fsub_def\<close>)
qed (use assms in simp_all)

lemma place_bet_trace_nonneg:
  assumes "fge b (Finite 0)" "finite_nonneg (Amount bet)"
  shows "\<forall>x \<in> set (place_bet_trace bet pocket b). fge x (Finite 0)"
  using assms debit_nonneg [of b "Amount bet"]
    settle_nonneg [of "fsub b (Amount bet)" bet pocket]
  by (auto simp: place_bet_trace_def)

lemma place_bet_nonneg:
  assumes "fge b (Finite 0)" "finite_nonneg (Amount bet)"
  shows "fge (place_bet bet pocket b) (Finite 0)"
  using assms debit_nonneg [of b "Amount bet"]
    settle_nonneg [of "fsub b (Amount bet)" bet pocket]
  by (auto simp: place_bet_def)

lemma bets_loop_nonneg:
  assumes "fge b (Finite 0)" "\<forall>bet \<in> set bets. finite_nonneg (Amount bet)"
  shows "fge (bets_loop bets pocket b) (Finite 0)
     \<and> (\<forall>x \<in> set (bets_loop_trace bets pocket b). fge x (Finite 0))"
  using assms
proof (induction bets arbitrary: b)
  case Nil
  then show ?case by simp
next
  case (Cons bet bets)
  then have a: "finite_nonneg (Amount bet)"
    and r: "\<forall>bet \<in> set bets. finite_nonneg (Amount bet)"
    by simp_all
  have p: "fge (place_bet bet pocket b) (Finite 0)"
    using place_bet_nonneg [OF Cons.prems(1) a] .
  from Cons.IH [OF p r] place_bet_trace_nonneg [OF Cons.prems(1) a, of pocket]
  show ?case by auto
qed

lemma games_loop_nonneg:
  assumes "fge b (Finite 0)" "\<forall>bet \<in> set bets. finite_nonneg (Amount bet)"
  shows "fge (games_loop rnd wheel bets n i b) (Finite 0)
     \<and> (\<forall>x \<in> set (games_loop_trace rnd wheel bets n i b). fge x (Finite 0))"
  using assms
proof (induction rnd wheel bets n i b rule: games_loop.induct)
  case (1 rnd wheel bets n i b)
  show ?case
  proof (cases "i < n")
    case True
    have s: "fge (bets_loop bets (Spin wheel (rnd (nat i))) b) (Finite 0)"
      and t: "\<forall>x \<in> set (bets_loop_trace bets (Spin wheel (rnd (nat i))) b). fge x (Finite 0)"
      using bets_loop_nonneg [OF "1.prems"] by simp_all
    from "1.IH" [OF True s "1.prems"(2)] t True show ?thesis
      by (subst games_loop.simps, subst games_loop_trace.simps) auto
  next
    case False
    with "1.prems" show ?thesis
      by (subst games_loop.simps, subst games_loop_trace.simps) simp
  qed
qed

text \<open>
  The same for amounts that are only \<open>\<ge> 0\<close> and may be infinite: the bankroll may then
  become not-a-number, but never a value below 0.
\<close>

lemma credit_not_negative:
  assumes "\<not> flt b (Finite 0)" "fge a (Finite 0)"
  shows "\<not> flt (fadd b (fmul a (Finite 36))) (Finite 0)"
    and "\<not> flt (fadd b (fmul a (Finite 2))) (Finite 0)"
proof -
  from not_flt_cases [OF assms(1)]
  have "\<not> flt (fadd b (fmul a (Finite 36))) (Finite 0)
      \<and> \<not> flt (fadd b (fmul a (Finite 2))) (Finite 0)"
  proof
    assume "b = NaN"
    then show ?thesis by simp
  next
    assume "fge b (Finite 0)"
    from credit_nonneg [OF this assms(2)] show ?thesis
      by (simp add: fge_not_flt)
  qed
  then show "\<not> flt (fadd b (fmul a (Finite 36))) (Finite 0)"
    and "\<not> flt (fadd b (fmul a (Finite 2))) (Finite 0)"
    by simp_all
qed

lemma settle_not_negative:
  assumes "\<not> flt b (Finite 0)" "fge (Amount bet) (Finite 0)"
  shows "\<not> flt (settle bet pocket b) (Finite 0)"
  using settle_cases [of bet pocket b] credit_not_negative [OF assms] assms
  by auto

lemma debit_not_negative:
  assumes "\<not> flt b (Finite 0)" "fge a (Finite 0)" "\<not> flt b a"
  shows "\<not> flt (fsub b a) (Finite 0)"
proof (cases a)
  case a: (Finite y)
  show ?thesis
  proof (cases b)
    case (Finite x)
    with a assms have "0 \<le> x + - y" by simp
    then have "fge (round64 (x + - y)) (Finite 0)"
      by (rule fge_round64)
    then show ?thesis
      using Finite a by (simp add: fsub_def fge_not_flt)
  qed (use a assms in \<open>simp_all add: fsub_def\<close>)
qed (use assms in \<open>cases b; simp add: fsub_def\<close>)+

lemma place_bet_trace_not_negative:
  assumes "\<not> flt b (Finite 0)" "fge (Amount bet) (Finite 0)"
  shows "\<forall>x \<in> set (place_bet_trace bet pocket b). \<not> flt x (Finite 0)"
  using assms debit_not_negative [of b "Amount bet"]
    settle_not_negative [of "fsub b (Amount bet)" bet pocket]
  by (auto simp: place_bet_trace_def)

lemma place_bet_not_negative:
  assumes "\<not> flt b (Finite 0)" "fge (Amount bet) (Finite 0)"
  shows "\<not> flt (place_bet bet pocket b) (Finite 0)"
  using assms debit_not_negative [of b "Amount bet"]
    settle_not_negative [of "fsub b (Amount bet)" bet pocket]
  by (auto simp: place_bet_def)

lemma bets_loop_not_negative:
  assumes "\<not> flt b (Finite 0)" "\<forall>bet \<in> set bets. fge (Amount bet) (Finite 0)"
  shows "\<not> flt (bets_loop bets pocket b) (Finite 0)
     \<and> (\<forall>x \<in> set (bets_loop_trace bets pocket b). \<not> flt x (Finite 0))"
  using assms
proof (induction bets arbitrary: b)
  case Nil
  then show ?case by simp
next
  case (Cons bet bets)
  then have a: "fge (Amount bet) (Finite 0)"
    and r: "\<forall>bet \<in> set bets. fge (Amount bet) (Finite 0)"
    by simp_all
  have p: "\<not> flt (place_bet bet pocket b) (Finite 0)"
    using place_bet_not_negative [OF Cons.prems(1) a] .
  from Cons.IH [OF p r] place_bet_trace_not_negative [OF Cons.prems(1) a, of pocket]
  show ?case by auto
qed

lemma games_loop_not_negative:
  assumes "\<not> flt b (Finite 0)" "\<forall>bet \<in> set bets. fge (Amount bet) (Finite 0)"
  shows "\<not> flt (games_loop rnd wheel bets n i b) (Finite 0)
     \<and> (\<forall>x \<in> set (games_loop_trace rnd wheel bets n i b). \<not> flt x (Finite 0))"
  using assms
proof (induction rnd wheel bets n i b rule: games_loop.induct)
  case (1 rnd wheel bets n i b)
  show ?case
  proof (cases "i < n")
    case True
    have s: "\<not> flt (bets_loop bets (Spin wheel (rnd (nat i))) b) (Finite 0)"
      and t: "\<forall>x \<in> set (bets_loop_trace bets (Spin wheel (rnd (nat i))) b). \<not> flt x (Finite 0)"
      using bets_loop_not_negative [OF "1.prems"] by simp_all
    from "1.IH" [OF True s "1.prems"(2)] t True show ?thesis
      by (subst games_loop.simps, subst games_loop_trace.simps) auto
  next
    case False
    with "1.prems" show ?thesis
      by (subst games_loop.simps, subst games_loop_trace.simps) simp
  qed
qed

text \<open>The recorded values end with the value the loops return.\<close>

lemma last_chain: "last (x # xs @ ys) = last (last (x # xs) # ys)"
  by (cases ys) simp_all

lemma place_bet_last: "place_bet bet pocket b = last (b # place_bet_trace bet pocket b)"
  by (simp add: place_bet_def place_bet_trace_def)

lemma bets_loop_last: "bets_loop bets pocket b = last (b # bets_loop_trace bets pocket b)"
proof (induction bets arbitrary: b)
  case Nil
  then show ?case by simp
next
  case (Cons bet bets)
  let ?b = "place_bet bet pocket b"
  have "bets_loop (bet # bets) pocket b = last (?b # bets_loop_trace bets pocket ?b)"
    using Cons.IH [of ?b] by simp
  also have "\<dots> = last (last (b # place_bet_trace bet pocket b) # bets_loop_trace bets pocket ?b)"
    by (simp only: place_bet_last [symmetric])
  also have "\<dots> = last (b # bets_loop_trace (bet # bets) pocket b)"
    by (simp only: bets_loop_trace.simps last_chain [symmetric])
  finally show ?case .
qed

lemma games_loop_last:
  "games_loop rnd wheel bets n i b = last (b # games_loop_trace rnd wheel bets n i b)"
proof (induction rnd wheel bets n i b rule: games_loop.induct)
  case (1 rnd wheel bets n i b)
  show ?case
  proof (cases "i < n")
    case True
    let ?w = "Spin wheel (rnd (nat i))"
    let ?b = "bets_loop bets ?w b"
    have "games_loop rnd wheel bets n i b
            = last (?b # games_loop_trace rnd wheel bets n (i + 1) ?b)"
      using True "1" [OF True] by (subst games_loop.simps) simp
    also have "\<dots> = last (last (b # bets_loop_trace bets ?w b)
                         # games_loop_trace rnd wheel bets n (i + 1) ?b)"
      by (simp only: bets_loop_last [symmetric])
    also have "\<dots> = last (b # games_loop_trace rnd wheel bets n i b)"
      using True
      by (subst (2) games_loop_trace.simps) (simp only: if_True last_chain [symmetric])
    finally show ?thesis .
  next
    case False
    then show ?thesis
      by (subst games_loop.simps, subst games_loop_trace.simps) simp
  qed
qed

text \<open>
  Claim C3, as stated, fails at the one amount that is not negative and not finite. A
  bankroll of \<open>+\<infinity>\<close> is not below a bet of \<open>+\<infinity>\<close>, so the bet is placed, and the debit
  \<open>\<infinity> - \<infinity>\<close> is not-a-number, which is not \<open>\<ge> 0\<close>. Both values satisfy the claim's
  hypothesis \<open>\<ge> 0\<close>.
\<close>

theorem infinite_amount_breaks_nonnegativity:
  "fge (InitialBankroll \<lparr>InitialBankroll = PInf,
          Bets = [\<lparr>Type = ''red'', Value = 0, Amount = PInf\<rparr>]\<rparr>) (Finite 0)
   \<and> fge (Amount \<lparr>Type = ''red'', Value = 0, Amount = PInf\<rparr>) (Finite 0)
   \<and> SimulateRoulette (always 0)
         \<lparr>InitialBankroll = PInf,
          Bets = [\<lparr>Type = ''red'', Value = 0, Amount = PInf\<rparr>]\<rparr> 1 = NaN
   \<and> \<not> fge (SimulateRoulette (always 0)
               \<lparr>InitialBankroll = PInf,
                Bets = [\<lparr>Type = ''red'', Value = 0, Amount = PInf\<rparr>]\<rparr> 1) (Finite 0)"
  by code_simp

text \<open>
  Claim C3, amended. For every strategy whose initial bankroll is \<open>\<ge> 0\<close> and whose bet
  amounts are all \<open>\<ge> 0\<close>, for every number of games and every sequence of spins: the
  bankroll is never below 0, neither after a debit nor after a settlement nor when it
  is returned; and when the amounts are also finite it is \<open>\<ge> 0\<close> at each of these
  points. The bankroll returned is the last of the recorded values. A bet is skipped,
  with no debit and no credit, when the bankroll is below its amount, and a debit
  happens only when it is not.
\<close>

theorem bankroll_never_negative:
  assumes "fge (InitialBankroll strategy) (Finite 0)"
    and "\<forall>bet \<in> set (Bets strategy). fge (Amount bet) (Finite 0)"
  shows "(\<forall>x \<in> set (SimulateRoulette_trace rnd strategy numGames). \<not> flt x (Finite 0))
     \<and> \<not> flt (SimulateRoulette rnd strategy numGames) (Finite 0)
     \<and> ((\<forall>bet \<in> set (Bets strategy). finite_nonneg (Amount bet)) \<longrightarrow>
          (\<forall>x \<in> set (SimulateRoulette_trace rnd strategy numGames). fge x (Finite 0))
          \<and> fge (SimulateRoulette rnd strategy numGames) (Finite 0))
     \<and> SimulateRoulette rnd strategy numGames
         = last (InitialBankroll strategy # SimulateRoulette_trace rnd strategy numGames)
     \<and> (\<forall>bet pocket bankroll. flt bankroll (Amount bet) \<longrightarrow>
           place_bet bet pocket bankroll = bankroll
           \<and> place_bet_trace bet pocket bankroll = [])
     \<and> (\<forall>bet pocket bankroll. place_bet_trace bet pocket bankroll \<noteq> [] \<longrightarrow>
           \<not> flt bankroll (Amount bet)
           \<and> hd (place_bet_trace bet pocket bankroll) = fsub bankroll (Amount bet))"
proof -
  have n: "\<not> flt (InitialBankroll strategy) (Finite 0)"
    using assms(1) by (rule fge_not_flt)
  have "\<forall>x \<in> set (SimulateRoulette_trace rnd strategy numGames). \<not> flt x (Finite 0)"
    using games_loop_not_negative [OF n assms(2)]
    by (simp add: SimulateRoulette_def SimulateRoulette_trace_def)
  moreover have "\<not> flt (SimulateRoulette rnd strategy numGames) (Finite 0)"
    using games_loop_not_negative [OF n assms(2)]
    by (simp add: SimulateRoulette_def SimulateRoulette_trace_def)
  moreover have "(\<forall>bet \<in> set (Bets strategy). finite_nonneg (Amount bet)) \<longrightarrow>
          (\<forall>x \<in> set (SimulateRoulette_trace rnd strategy numGames). fge x (Finite 0))
          \<and> fge (SimulateRoulette rnd strategy numGames) (Finite 0)"
    using games_loop_nonneg [OF assms(1)]
    by (simp add: SimulateRoulette_def SimulateRoulette_trace_def)
  moreover have "SimulateRoulette rnd strategy numGames
         = last (InitialBankroll strategy # SimulateRoulette_trace rnd strategy numGames)"
    using games_loop_last by (simp add: SimulateRoulette_def SimulateRoulette_trace_def)
  moreover have "\<forall>bet pocket bankroll. flt bankroll (Amount bet) \<longrightarrow>
           place_bet bet pocket bankroll = bankroll
           \<and> place_bet_trace bet pocket bankroll = []"
    by (simp add: place_bet_def place_bet_trace_def)
  moreover have "\<forall>bet pocket bankroll. place_bet_trace bet pocket bankroll \<noteq> [] \<longrightarrow>
           \<not> flt bankroll (Amount bet)
           \<and> hd (place_bet_trace bet pocket bankroll) = fsub bankroll (Amount bet)"
    by (simp add: place_bet_trace_def)
  ultimately show ?thesis by (intro conjI)
qed

theorem bankroll_never_negative_witness:
  "SimulateRoulette_trace (always 0)
     \<lparr>InitialBankroll = Finite 100,
      Bets = [\<lparr>Type = ''red'', Value = 0, Amount = Finite 10\<rparr>,
              \<lparr>Type = ''black'', Value = 0, Amount = Finite 10\<rparr>]\<rparr> 2
     = [Finite 90, Finite 110, Finite 100, Finite 100,
        Finite 90, Finite 110, Finite 100, Finite 100]
   \<and> list_all (\<lambda>x. fge x (Finite 0))
        (SimulateRoulette_trace (always 0)
           \<lparr>InitialBankroll = Finite 100,
            Bets = [\<lparr>Type = ''red'', Value = 0, Amount = Finite 10\<rparr>,
                    \<lparr>Type = ''black'', Value = 0, Amount = Finite 10\<rparr>]\<rparr> 2)
   \<and> fge (SimulateRoulette (always 0)
            \<lparr>InitialBankroll = Finite 100,
             Bets = [\<lparr>Type = ''red'', Value = 0, Amount = Finite 10\<rparr>,
                     \<lparr>Type = ''black'', Value = 0, Amount = Finite 10\<rparr>]\<rparr> 2) (Finite 0)
   \<and> SimulateRoulette_trace (always 0)
        \<lparr>InitialBankroll = Finite 10000000000000000,
         Bets = [\<lparr>Type = ''foo'', Value = 0, Amount = Finite 1\<rparr>,
                 \<lparr>Type = ''foo'', Value = 0, Amount = Finite 10000000000000000\<rparr>]\<rparr> 1
       = [Finite 10000000000000000, Finite 10000000000000000, Finite 0, Finite 0]
   \<and> fge (SimulateRoulette (always 0)
            \<lparr>InitialBankroll = Finite 10000000000000000,
             Bets = [\<lparr>Type = ''foo'', Value = 0, Amount = Finite 1\<rparr>,
                     \<lparr>Type = ''foo'', Value = 0, Amount = Finite 10000000000000000\<rparr>]\<rparr> 1)
         (Finite 0)
   \<and> fge (SimulateRoulette (always 4)
            \<lparr>InitialBankroll = Finite 0,
             Bets = [\<lparr>Type = ''number'', Value = 5, Amount = Finite 10\<rparr>]\<rparr> 100) (Finite 0)
   \<and> \<not> flt (SimulateRoulette (always 0)
               \<lparr>InitialBankroll = PInf,
                Bets = [\<lparr>Type = ''red'', Value = 0, Amount = PInf\<rparr>]\<rparr> 1) (Finite 0)"
proof -
  let ?s = "\<lparr>InitialBankroll = Finite 100,
             Bets = [\<lparr>Type = ''red'', Value = 0, Amount = Finite 10\<rparr>,
                     \<lparr>Type = ''black'', Value = 0, Amount = Finite 10\<rparr>]\<rparr>"
  let ?r = "\<lparr>InitialBankroll = Finite 10000000000000000,
             Bets = [\<lparr>Type = ''foo'', Value = 0, Amount = Finite 1\<rparr>,
                     \<lparr>Type = ''foo'', Value = 0, Amount = Finite 10000000000000000\<rparr>]\<rparr>"
  let ?z = "\<lparr>InitialBankroll = Finite 0,
             Bets = [\<lparr>Type = ''number'', Value = 5, Amount = Finite 10\<rparr>]\<rparr>"
  let ?t = "\<lparr>InitialBankroll = PInf, Bets = [\<lparr>Type = ''red'', Value = 0, Amount = PInf\<rparr>]\<rparr>"
  have s1: "fge (InitialBankroll ?s) (Finite 0)"
    and s2: "\<forall>bet \<in> set (Bets ?s). fge (Amount bet) (Finite 0)"
    and s3: "\<forall>bet \<in> set (Bets ?s). finite_nonneg (Amount bet)"
    by simp_all
  have r1: "fge (InitialBankroll ?r) (Finite 0)"
    and r2: "\<forall>bet \<in> set (Bets ?r). fge (Amount bet) (Finite 0)"
    and r3: "\<forall>bet \<in> set (Bets ?r). finite_nonneg (Amount bet)"
    by simp_all
  have z1: "fge (InitialBankroll ?z) (Finite 0)"
    and z2: "\<forall>bet \<in> set (Bets ?z). fge (Amount bet) (Finite 0)"
    and z3: "\<forall>bet \<in> set (Bets ?z). finite_nonneg (Amount bet)"
    by simp_all
  have t1: "fge (InitialBankroll ?t) (Finite 0)"
    and t2: "\<forall>bet \<in> set (Bets ?t). fge (Amount bet) (Finite 0)"
    by simp_all
  note a = bankroll_never_negative [OF s1 s2, of "always 0" 2]
  note b = bankroll_never_negative [OF t1 t2, of "always 0" 1]
  note c = bankroll_never_negative [OF r1 r2, of "always 0" 1]
  note d = bankroll_never_negative [OF z1 z2, of "always 4" 100]
  from a [THEN conjunct2, THEN conjunct2, THEN conjunct1] s3
  have "(\<forall>x \<in> set (SimulateRoulette_trace (always 0) ?s 2). fge x (Finite 0))
     \<and> fge (SimulateRoulette (always 0) ?s 2) (Finite 0)"
    by (rule mp)
  then have "list_all (\<lambda>x. fge x (Finite 0)) (SimulateRoulette_trace (always 0) ?s 2)"
    and "fge (SimulateRoulette (always 0) ?s 2) (Finite 0)"
    unfolding list_all_iff by (rule conjunct1, rule conjunct2)
  moreover from c [THEN conjunct2, THEN conjunct2, THEN conjunct1] r3
  have "(\<forall>x \<in> set (SimulateRoulette_trace (always 0) ?r 1). fge x (Finite 0))
     \<and> fge (SimulateRoulette (always 0) ?r 1) (Finite 0)"
    by (rule mp)
  then have "fge (SimulateRoulette (always 0) ?r 1) (Finite 0)"
    by (rule conjunct2)
  moreover from d [THEN conjunct2, THEN conjunct2, THEN conjunct1] z3
  have "(\<forall>x \<in> set (SimulateRoulette_trace (always 4) ?z 100). fge x (Finite 0))
     \<and> fge (SimulateRoulette (always 4) ?z 100) (Finite 0)"
    by (rule mp)
  then have "fge (SimulateRoulette (always 4) ?z 100) (Finite 0)"
    by (rule conjunct2)
  moreover have "\<not> flt (SimulateRoulette (always 0) ?t 1) (Finite 0)"
    using b [THEN conjunct2, THEN conjunct1] .
  moreover have "SimulateRoulette_trace (always 0) ?s 2
     = [Finite 90, Finite 110, Finite 100, Finite 100,
        Finite 90, Finite 110, Finite 100, Finite 100]"
    by code_simp
  moreover have "SimulateRoulette_trace (always 0) ?r 1
       = [Finite 10000000000000000, Finite 10000000000000000, Finite 0, Finite 0]"
    by code_simp
  ultimately show ?thesis
    by (intro conjI)
qed

section \<open>Properties of the parser\<close>

subsection \<open>One line at a time\<close>

lemma HasPrefix_append: "HasPrefix s p \<longleftrightarrow> (\<exists>r. s = p @ r)"
  unfolding HasPrefix_def
proof
  assume "length p \<le> length s \<and> take (length p) s = p"
  then have "s = p @ drop (length p) s"
    by (metis append_take_drop_id)
  then show "\<exists>r. s = p @ r" ..
next
  assume "\<exists>r. s = p @ r"
  then show "length p \<le> length s \<and> take (length p) s = p"
    by auto
qed

lemma bet_not_bankroll: "HasPrefix l ''bet:'' \<Longrightarrow> \<not> HasPrefix l ''bankroll:''"
  by (auto simp: HasPrefix_append)

lemma length3: "length xs = 3 \<longleftrightarrow> (\<exists>a b c. xs = [a, b, c])"
  by (cases xs; cases "tl xs"; cases "tl (tl xs)"; cases "tl (tl (tl xs))") auto

lemma case_not_three:
  "length xs \<noteq> 3 \<Longrightarrow>
   (case xs of [] \<Rightarrow> d | [t] \<Rightarrow> d | [t, v] \<Rightarrow> d | [t, v, a] \<Rightarrow> f t v a | t # v # a # b # r \<Rightarrow> d) = d"
  by (auto split: list.splits)

lemma bankroll_line_not_bet: "is_bankroll_line line \<Longrightarrow> \<not> is_bet_line line"
  using bet_not_bankroll by (auto simp: is_bankroll_line_def is_bet_line_def)

lemma code_bankroll:
  assumes "HasPrefix (TrimSpace l) ''bankroll:''"
  shows "parse_lines pf ai (l # ls) s =
     (case pf (bankroll_text (TrimSpace l)) of
        None \<Rightarrow> Inl InvalidBankroll
      | Some x \<Rightarrow> parse_lines pf ai ls (s\<lparr>InitialBankroll := x\<rparr>))"
  using assms by (simp add: bankroll_text_def)

lemma spec_bankroll:
  assumes "is_bankroll_line line"
  shows "line_error pf ai line = (case pf (bankroll_text line) of None \<Rightarrow> Some InvalidBankroll | Some x \<Rightarrow> None)"
    and "apply_line pf ai line s = (case pf (bankroll_text line) of None \<Rightarrow> s | Some x \<Rightarrow> s\<lparr>InitialBankroll := x\<rparr>)"
  using assms bankroll_line_not_bet [OF assms]
  by (simp_all add: line_error_def apply_line_def split: option.splits)

lemma code_other:
  assumes "\<not> HasPrefix (TrimSpace l) ''bankroll:''" "\<not> HasPrefix (TrimSpace l) ''bet:''"
  shows "parse_lines pf ai (l # ls) s = parse_lines pf ai ls s"
  using assms by simp

lemma spec_other:
  assumes "\<not> is_bankroll_line line" "\<not> is_bet_line line"
  shows "line_error pf ai line = None" and "apply_line pf ai line s = s"
  using assms by (simp_all add: line_error_def apply_line_def)

lemma code_bet_malformed:
  assumes "\<not> HasPrefix (TrimSpace l) ''bankroll:''" "HasPrefix (TrimSpace l) ''bet:''"
    and "length (Split (TrimPrefix (TrimSpace l) ''bet:'') CHR '','') \<noteq> 3"
  shows "parse_lines pf ai (l # ls) s = Inl (InvalidBetFormat (TrimSpace l))"
  using assms by (simp add: Let_def)

lemma spec_bet_malformed:
  assumes "\<not> is_bankroll_line line" "is_bet_line line" "length (bet_fields line) \<noteq> 3"
  shows "line_error pf ai line = Some (InvalidBetFormat line)"
  using assms by (simp add: line_error_def case_not_three)

lemma code_bet_three:
  assumes "\<not> HasPrefix (TrimSpace l) ''bankroll:''" "HasPrefix (TrimSpace l) ''bet:''"
    and "Split (TrimPrefix (TrimSpace l) ''bet:'') CHR '','' = [a, b, c]"
  shows "parse_lines pf ai (l # ls) s =
     (case ai (TrimSpace b) of
        None \<Rightarrow> Inl InvalidBetValue
      | Some n \<Rightarrow>
          (case pf (TrimSpace c) of
             None \<Rightarrow> Inl InvalidBetAmount
           | Some x \<Rightarrow> parse_lines pf ai ls
               (s\<lparr>Bets := Bets s @ [\<lparr>Type = TrimSpace a, Value = n, Amount = x\<rparr>]\<rparr>)))"
  using assms by (simp add: Let_def split: option.splits)

lemma spec_bet_three:
  assumes "\<not> is_bankroll_line line" "is_bet_line line" "bet_fields line = [t, v, a]"
  shows "line_error pf ai line =
     (case ai v of
        None \<Rightarrow> Some InvalidBetValue
      | Some n \<Rightarrow> (case pf a of None \<Rightarrow> Some InvalidBetAmount | Some x \<Rightarrow> None))"
    and "apply_line pf ai line s =
     (case ai v of
        None \<Rightarrow> s
      | Some n \<Rightarrow>
          (case pf a of
             None \<Rightarrow> s
           | Some x \<Rightarrow> s\<lparr>Bets := Bets s @ [\<lparr>Type = t, Value = n, Amount = x\<rparr>]\<rparr>))"
  using assms
  by (simp_all add: line_error_def apply_line_def bet_of_line_def split: option.splits)


lemma parse_lines_step:
  "parse_lines pf ai (l # ls) s =
     (case line_error pf ai (TrimSpace l) of
        Some e \<Rightarrow> Inl e
      | None \<Rightarrow> parse_lines pf ai ls (apply_line pf ai (TrimSpace l) s))"
proof -
  let ?line = "TrimSpace l"
  let ?parts = "Split (TrimPrefix ?line ''bet:'') CHR '',''"
  consider (bankroll) "is_bankroll_line ?line"
    | (other) "\<not> is_bankroll_line ?line" "\<not> is_bet_line ?line"
    | (malformed) "\<not> is_bankroll_line ?line" "is_bet_line ?line" "length ?parts \<noteq> 3"
    | (three) "\<not> is_bankroll_line ?line" "is_bet_line ?line" "length ?parts = 3"
    by blast
  then show ?thesis
  proof cases
    case bankroll
    then have "HasPrefix ?line ''bankroll:''"
      by (simp add: is_bankroll_line_def)
    then show ?thesis
      unfolding code_bankroll [OF \<open>HasPrefix ?line ''bankroll:''\<close>] spec_bankroll [OF bankroll]
      by (simp split: option.splits)
  next
    case other
    then have "\<not> HasPrefix ?line ''bankroll:''" "\<not> HasPrefix ?line ''bet:''"
      by (simp_all add: is_bankroll_line_def is_bet_line_def)
    then show ?thesis
      unfolding code_other [OF \<open>\<not> HasPrefix ?line ''bankroll:''\<close> \<open>\<not> HasPrefix ?line ''bet:''\<close>]
        spec_other [OF other]
      by simp
  next
    case malformed
    then have h: "\<not> HasPrefix ?line ''bankroll:''" "HasPrefix ?line ''bet:''"
      by (simp_all add: is_bankroll_line_def is_bet_line_def)
    have "length (bet_fields ?line) \<noteq> 3"
      using malformed(3) by (simp add: bet_fields_def)
    then show ?thesis
      unfolding code_bet_malformed [OF h malformed(3)]
        spec_bet_malformed [OF malformed(1,2) \<open>length (bet_fields ?line) \<noteq> 3\<close>]
      by simp
  next
    case three
    then have h: "\<not> HasPrefix ?line ''bankroll:''" "HasPrefix ?line ''bet:''"
      by (simp_all add: is_bankroll_line_def is_bet_line_def)
    from three(3) [unfolded length3] obtain a b c where p: "?parts = [a, b, c]"
      by blast
    then have f: "bet_fields ?line = [TrimSpace a, TrimSpace b, TrimSpace c]"
      by (simp add: bet_fields_def)
    show ?thesis
      unfolding code_bet_three [OF h p] spec_bet_three [OF three(1,2) f]
      by (simp split: option.splits)
  qed
qed

subsection \<open>The whole input\<close>

declare parse_lines.simps(2) [simp del]

lemma parse_lines_error_iff:
  "(\<exists>e. parse_lines pf ai ls s = Inl e) \<longleftrightarrow> (\<exists>l \<in> set ls. line_error pf ai (TrimSpace l) \<noteq> None)"
proof (induction ls arbitrary: s)
  case Nil
  then show ?case by simp
next
  case (Cons l ls)
  show ?case
  proof (cases "line_error pf ai (TrimSpace l)")
    case None
    then show ?thesis
      using Cons.IH [of "apply_line pf ai (TrimSpace l) s"] by (simp add: parse_lines_step)
  next
    case (Some e)
    then show ?thesis by (simp add: parse_lines_step)
  qed
qed

lemma parse_lines_error_first:
  "parse_lines pf ai ls s = Inl e \<Longrightarrow>
   \<exists>before l after. ls = before @ l # after
      \<and> (\<forall>x \<in> set before. line_error pf ai (TrimSpace x) = None)
      \<and> line_error pf ai (TrimSpace l) = Some e"
proof (induction ls arbitrary: s)
  case Nil
  then show ?case by simp
next
  case (Cons l ls)
  show ?case
  proof (cases "line_error pf ai (TrimSpace l)")
    case None
    with Cons.prems have "parse_lines pf ai ls (apply_line pf ai (TrimSpace l) s) = Inl e"
      by (simp add: parse_lines_step)
    from Cons.IH [OF this] obtain before x after where
      "ls = before @ x # after" "\<forall>y \<in> set before. line_error pf ai (TrimSpace y) = None"
      "line_error pf ai (TrimSpace x) = Some e"
      by blast
    with None have "l # ls = (l # before) @ x # after
      \<and> (\<forall>y \<in> set (l # before). line_error pf ai (TrimSpace y) = None)
      \<and> line_error pf ai (TrimSpace x) = Some e"
      by simp
    then show ?thesis by blast
  next
    case (Some e')
    with Cons.prems have "e' = e"
      by (simp add: parse_lines_step)
    with Some have "l # ls = [] @ l # ls
      \<and> (\<forall>y \<in> set []. line_error pf ai (TrimSpace y) = None)
      \<and> line_error pf ai (TrimSpace l) = Some e"
      by simp
    then show ?thesis by blast
  qed
qed

lemma parse_lines_filter_recognized:
  "parse_lines pf ai (filter (\<lambda>l. is_bankroll_line (TrimSpace l) \<or> is_bet_line (TrimSpace l)) ls) s
     = parse_lines pf ai ls s"
proof (induction ls arbitrary: s)
  case Nil
  then show ?case by simp
next
  case (Cons l ls)
  show ?case
  proof (cases "is_bankroll_line (TrimSpace l) \<or> is_bet_line (TrimSpace l)")
    case True
    then show ?thesis
      by (simp add: parse_lines_step Cons.IH cong: option.case_cong)
  next
    case False
    then show ?thesis
      by (simp add: parse_lines_step Cons.IH spec_other)
  qed
qed

lemma apply_line_bets:
  assumes "line_error pf ai line = None"
  shows "map Some (Bets (apply_line pf ai line s))
     = map Some (Bets s) @ (if is_bet_line line then [bet_of_line pf ai line] else [])"
proof (cases "is_bankroll_line line")
  case True
  then show ?thesis
    using bankroll_line_not_bet [OF True]
    by (simp add: apply_line_def split: option.splits)
next
  case nb: False
  show ?thesis
  proof (cases "is_bet_line line")
    case False
    with nb show ?thesis by (simp add: apply_line_def)
  next
    case True
    have "length (bet_fields line) = 3"
      using assms spec_bet_malformed [OF nb True] by fastforce
    then obtain t v a where f: "bet_fields line = [t, v, a]"
      unfolding length3 by blast
    from assms True show ?thesis
      unfolding spec_bet_three [OF nb True f]
      by (simp add: bet_of_line_def f split: option.splits)
  qed
qed

lemma apply_line_bankroll:
  "InitialBankroll (apply_line pf ai line s)
     = (if is_bankroll_line line
        then (case pf (bankroll_text line) of None \<Rightarrow> InitialBankroll s | Some x \<Rightarrow> x)
        else InitialBankroll s)"
  by (simp add: apply_line_def split: option.splits)

lemma parse_lines_bets:
  "parse_lines pf ai ls s = Inr r \<Longrightarrow>
   map Some (Bets r)
     = map Some (Bets s) @ map (bet_of_line pf ai) (filter is_bet_line (map TrimSpace ls))"
proof (induction ls arbitrary: s)
  case Nil
  then show ?case by simp
next
  case (Cons l ls)
  from Cons.prems have n: "line_error pf ai (TrimSpace l) = None"
    by (simp add: parse_lines_step split: option.splits)
  with Cons.prems have "parse_lines pf ai ls (apply_line pf ai (TrimSpace l) s) = Inr r"
    by (simp add: parse_lines_step)
  from Cons.IH [OF this] show ?case
    by (simp add: apply_line_bets [OF n])
qed

lemma parse_lines_no_bankroll:
  "parse_lines pf ai ls s = Inr r \<Longrightarrow> filter is_bankroll_line (map TrimSpace ls) = [] \<Longrightarrow>
   InitialBankroll r = InitialBankroll s"
proof (induction ls arbitrary: s)
  case Nil
  then show ?case by simp
next
  case (Cons l ls)
  from Cons.prems(2) have nb: "\<not> is_bankroll_line (TrimSpace l)"
    and rest: "filter is_bankroll_line (map TrimSpace ls) = []"
    by (simp_all split: if_splits)
  from Cons.prems(1) have "parse_lines pf ai ls (apply_line pf ai (TrimSpace l) s) = Inr r"
    by (simp add: parse_lines_step split: option.splits)
  from Cons.IH [OF this rest] nb show ?case
    by (simp add: apply_line_bankroll)
qed

lemma parse_lines_last_bankroll:
  "parse_lines pf ai ls s = Inr r \<Longrightarrow> filter is_bankroll_line (map TrimSpace ls) \<noteq> [] \<Longrightarrow>
   pf (bankroll_text (last (filter is_bankroll_line (map TrimSpace ls)))) = Some (InitialBankroll r)"
proof (induction ls arbitrary: s)
  case Nil
  then show ?case by simp
next
  case (Cons l ls)
  let ?s = "apply_line pf ai (TrimSpace l) s"
  from Cons.prems(1) have n: "line_error pf ai (TrimSpace l) = None"
    and p: "parse_lines pf ai ls ?s = Inr r"
    by (simp_all add: parse_lines_step split: option.splits)
  show ?case
  proof (cases "filter is_bankroll_line (map TrimSpace ls) = []")
    case False
    with Cons.IH [OF p False] show ?thesis by simp
  next
    case True
    with Cons.prems(2) have b: "is_bankroll_line (TrimSpace l)"
      by (simp split: if_splits)
    from n obtain x where x: "pf (bankroll_text (TrimSpace l)) = Some x"
      unfolding spec_bankroll(1) [OF b] by (auto split: option.splits)
    have "InitialBankroll r = InitialBankroll ?s"
      using parse_lines_no_bankroll [OF p True] .
    also have "\<dots> = x"
      using b x by (simp add: apply_line_bankroll)
    finally show ?thesis
      using True b x by simp
  qed
qed

text \<open>
  Claim C5. Parsing fails if and only if some trimmed line is an error in the sense of
  the specification: a line starting with \<^verbatim>\<open>bankroll:\<close> whose text does not parse as a
  decimal, or a line starting with \<^verbatim>\<open>bet:\<close> that does not split into exactly three
  fields, or whose value field does not parse as an integer, or whose amount field does
  not parse as a decimal. The error returned is the error of the first such line. Every
  line that starts with neither prefix is ignored: parsing the input gives what parsing
  only its recognized lines gives.
\<close>

theorem parse_fails_iff_some_line_is_bad:
  "((\<exists>e. ParseStrategy parseFloat atoi input = Inl e)
      \<longleftrightarrow> (\<exists>line \<in> set (trimmed_lines input). line_error parseFloat atoi line \<noteq> None))
   \<and> (\<forall>e. ParseStrategy parseFloat atoi input = Inl e \<longrightarrow>
         (\<exists>before l after. Split input CHR 0x0A = before @ l # after
            \<and> (\<forall>x \<in> set before. line_error parseFloat atoi (TrimSpace x) = None)
            \<and> line_error parseFloat atoi (TrimSpace l) = Some e))
   \<and> ParseStrategy parseFloat atoi input
       = parse_lines parseFloat atoi
           (filter (\<lambda>l. is_bankroll_line (TrimSpace l) \<or> is_bet_line (TrimSpace l))
              (Split input CHR 0x0A))
           \<lparr>InitialBankroll = Finite 0, Bets = []\<rparr>"
proof (intro conjI allI impI)
  show "(\<exists>e. ParseStrategy parseFloat atoi input = Inl e)
      \<longleftrightarrow> (\<exists>line \<in> set (trimmed_lines input). line_error parseFloat atoi line \<noteq> None)"
    by (simp add: ParseStrategy_def trimmed_lines_def parse_lines_error_iff)
next
  fix e
  assume "ParseStrategy parseFloat atoi input = Inl e"
  then show "\<exists>before l after. Split input CHR 0x0A = before @ l # after
            \<and> (\<forall>x \<in> set before. line_error parseFloat atoi (TrimSpace x) = None)
            \<and> line_error parseFloat atoi (TrimSpace l) = Some e"
    unfolding ParseStrategy_def by (rule parse_lines_error_first)
next
  show "ParseStrategy parseFloat atoi input
       = parse_lines parseFloat atoi
           (filter (\<lambda>l. is_bankroll_line (TrimSpace l) \<or> is_bet_line (TrimSpace l))
              (Split input CHR 0x0A))
           \<lparr>InitialBankroll = Finite 0, Bets = []\<rparr>"
    by (simp add: ParseStrategy_def parse_lines_filter_recognized)
qed

theorem parse_fails_iff_some_line_is_bad_witness:
  "(\<exists>e. ParseStrategy read_decimal read_int
           ''bankroll: 100\<newline>hello\<newline>bet: number, 1, 2, 3\<newline>'' = Inl e)
   \<and> \<not> (\<exists>e. ParseStrategy read_decimal read_int
           ''bankroll: 100\<newline>hello\<newline>bet: number, 1, 2\<newline>'' = Inl e)"
proof -
  have "''bet: number, 1, 2, 3'' \<in> set (trimmed_lines ''bankroll: 100\<newline>hello\<newline>bet: number, 1, 2, 3\<newline>'')"
    by code_simp
  moreover have "line_error read_decimal read_int ''bet: number, 1, 2, 3'' \<noteq> None"
    by code_simp
  ultimately have "\<exists>e. ParseStrategy read_decimal read_int
           ''bankroll: 100\<newline>hello\<newline>bet: number, 1, 2, 3\<newline>'' = Inl e"
    using parse_fails_iff_some_line_is_bad [of read_decimal read_int "''bankroll: 100\<newline>hello\<newline>bet: number, 1, 2, 3\<newline>''",
        THEN conjunct1]
    by blast
  moreover have "list_all (\<lambda>line. line_error read_decimal read_int line = None)
     (trimmed_lines ''bankroll: 100\<newline>hello\<newline>bet: number, 1, 2\<newline>'')"
    by code_simp
  then have "\<not> (\<exists>e. ParseStrategy read_decimal read_int
           ''bankroll: 100\<newline>hello\<newline>bet: number, 1, 2\<newline>'' = Inl e)"
    using parse_fails_iff_some_line_is_bad [of read_decimal read_int "''bankroll: 100\<newline>hello\<newline>bet: number, 1, 2\<newline>''",
        THEN conjunct1]
    by (simp add: list_all_iff)
  ultimately show ?thesis by simp
qed

text \<open>
  Claim C7. On an input with at least one bankroll line, so also with several, the
  strategy that parsing returns has as initial bankroll the decimal read from the last
  bankroll line, and as bets those of the bet lines, one for each, in order, whatever
  the bankroll lines are. Parsing does return a strategy when no line is an error.
\<close>

theorem last_bankroll_line_wins:
  assumes "bankroll_lines input \<noteq> []"
  shows "(\<forall>strategy. ParseStrategy parseFloat atoi input = Inr strategy \<longrightarrow>
            parseFloat (bankroll_text (last (bankroll_lines input)))
              = Some (InitialBankroll strategy)
            \<and> map Some (Bets strategy) = map (bet_of_line parseFloat atoi) (bet_lines input))
     \<and> ((\<forall>line \<in> set (trimmed_lines input). line_error parseFloat atoi line = None) \<longrightarrow>
          (\<exists>strategy. ParseStrategy parseFloat atoi input = Inr strategy))"
proof (intro conjI allI impI)
  fix strategy
  assume r: "ParseStrategy parseFloat atoi input = Inr strategy"
  then show "parseFloat (bankroll_text (last (bankroll_lines input)))
      = Some (InitialBankroll strategy)"
    using parse_lines_last_bankroll [of parseFloat atoi "Split input CHR 0x0A" _ strategy] assms
    by (simp add: ParseStrategy_def bankroll_lines_def trimmed_lines_def)
  from r show "map Some (Bets strategy) = map (bet_of_line parseFloat atoi) (bet_lines input)"
    using parse_lines_bets [of parseFloat atoi "Split input CHR 0x0A" _ strategy]
    by (simp add: ParseStrategy_def bet_lines_def trimmed_lines_def)
next
  let ?ls = "Split input CHR 0x0A"
  let ?s = "\<lparr>InitialBankroll = Finite 0, Bets = []\<rparr>"
  assume "\<forall>line \<in> set (trimmed_lines input). line_error parseFloat atoi line = None"
  then have "\<not> (\<exists>e. parse_lines parseFloat atoi ?ls ?s = Inl e)"
    unfolding parse_lines_error_iff by (simp add: trimmed_lines_def)
  then obtain r where "parse_lines parseFloat atoi ?ls ?s = Inr r"
    by (cases "parse_lines parseFloat atoi ?ls ?s") auto
  then show "\<exists>strategy. ParseStrategy parseFloat atoi input = Inr strategy"
    by (simp add: ParseStrategy_def)
qed

theorem last_bankroll_line_wins_witness:
  "bankroll_lines ''bankroll: 1\<newline>bet: red, 0, 10\<newline>bankroll: 2.5''
     = [''bankroll: 1'', ''bankroll: 2.5'']
   \<and> ParseStrategy read_decimal read_int ''bankroll: 1\<newline>bet: red, 0, 10\<newline>bankroll: 2.5''
       = Inr \<lparr>InitialBankroll = Finite (5 / 2),
              Bets = [\<lparr>Type = ''red'', Value = 0, Amount = Finite 10\<rparr>]\<rparr>
   \<and> (\<exists>strategy.
         ParseStrategy read_decimal read_int ''bankroll: 1\<newline>bet: red, 0, 10\<newline>bankroll: 2.5''
           = Inr strategy
         \<and> read_decimal (bankroll_text (last (bankroll_lines
               ''bankroll: 1\<newline>bet: red, 0, 10\<newline>bankroll: 2.5'')))
             = Some (InitialBankroll strategy)
         \<and> map Some (Bets strategy) = map (bet_of_line read_decimal read_int)
               (bet_lines ''bankroll: 1\<newline>bet: red, 0, 10\<newline>bankroll: 2.5''))"
proof -
  have b: "bankroll_lines ''bankroll: 1\<newline>bet: red, 0, 10\<newline>bankroll: 2.5''
     = [''bankroll: 1'', ''bankroll: 2.5'']"
    by code_simp
  have g: "list_all (\<lambda>line. line_error read_decimal read_int line = None)
     (trimmed_lines ''bankroll: 1\<newline>bet: red, 0, 10\<newline>bankroll: 2.5'')"
    by code_simp
  have p: "ParseStrategy read_decimal read_int ''bankroll: 1\<newline>bet: red, 0, 10\<newline>bankroll: 2.5''
       = Inr \<lparr>InitialBankroll = Finite (5 / 2),
              Bets = [\<lparr>Type = ''red'', Value = 0, Amount = Finite 10\<rparr>]\<rparr>"
    by code_simp
  have "\<exists>strategy.
         ParseStrategy read_decimal read_int ''bankroll: 1\<newline>bet: red, 0, 10\<newline>bankroll: 2.5''
           = Inr strategy
         \<and> read_decimal (bankroll_text (last (bankroll_lines
               ''bankroll: 1\<newline>bet: red, 0, 10\<newline>bankroll: 2.5'')))
             = Some (InitialBankroll strategy)
         \<and> map Some (Bets strategy) = map (bet_of_line read_decimal read_int)
               (bet_lines ''bankroll: 1\<newline>bet: red, 0, 10\<newline>bankroll: 2.5'')"
  proof -
    have n: "bankroll_lines ''bankroll: 1\<newline>bet: red, 0, 10\<newline>bankroll: 2.5'' \<noteq> []"
      using b by simp
    note t = last_bankroll_line_wins [OF n, of read_decimal read_int]
    from t [THEN conjunct2] g obtain strategy where
      r: "ParseStrategy read_decimal read_int ''bankroll: 1\<newline>bet: red, 0, 10\<newline>bankroll: 2.5''
            = Inr strategy"
      unfolding list_all_iff by blast
    with t [THEN conjunct1] show ?thesis
      by blast
  qed
  with b p show ?thesis
    by (intro conjI)
qed

text \<open>
  Claim C9, as stated, fails: an input without a bankroll line need not parse. The
  input \<^verbatim>\<open>bet: red\<close> has no bankroll line, and its only line has one field where
  three are required.
\<close>

theorem no_bankroll_line_yet_parse_fails:
  "bankroll_lines ''bet: red'' = []
   \<and> ParseStrategy read_decimal read_int ''bet: red'' = Inl (InvalidBetFormat ''bet: red'')"
  by code_simp

text \<open>
  Claim C9, amended. On an input with no bankroll line whose bet lines are all free of
  errors, parsing succeeds, the initial bankroll is 0, and the bets are those of the bet
  lines, one for each, in order.
\<close>

theorem no_bankroll_line_defaults_to_zero:
  assumes "bankroll_lines input = []"
    and "\<forall>line \<in> set (bet_lines input). line_error parseFloat atoi line = None"
  shows "\<exists>bets. ParseStrategy parseFloat atoi input = Inr \<lparr>InitialBankroll = Finite 0, Bets = bets\<rparr>
     \<and> map Some bets = map (bet_of_line parseFloat atoi) (bet_lines input)"
proof -
  let ?ls = "Split input CHR 0x0A"
  let ?s = "\<lparr>InitialBankroll = Finite 0, Bets = []\<rparr>"
  have "line_error parseFloat atoi (TrimSpace l) = None" if "l \<in> set ?ls" for l
  proof (cases "is_bet_line (TrimSpace l)")
    case True
    with that assms(2) show ?thesis
      by (simp add: bet_lines_def trimmed_lines_def)
  next
    case False
    moreover have "\<not> is_bankroll_line (TrimSpace l)"
      using assms(1) that by (auto simp: bankroll_lines_def trimmed_lines_def filter_empty_conv)
    ultimately show ?thesis
      by (simp add: spec_other)
  qed
  then have "\<not> (\<exists>e. parse_lines parseFloat atoi ?ls ?s = Inl e)"
    unfolding parse_lines_error_iff by simp
  then obtain r where r: "parse_lines parseFloat atoi ?ls ?s = Inr r"
    by (cases "parse_lines parseFloat atoi ?ls ?s") auto
  have "InitialBankroll r = Finite 0"
    using parse_lines_no_bankroll [OF r] assms(1)
    by (simp add: bankroll_lines_def trimmed_lines_def)
  moreover have "map Some (Bets r) = map (bet_of_line parseFloat atoi) (bet_lines input)"
    using parse_lines_bets [OF r] by (simp add: bet_lines_def trimmed_lines_def)
  ultimately have "ParseStrategy parseFloat atoi input = Inr \<lparr>InitialBankroll = Finite 0, Bets = Bets r\<rparr>
     \<and> map Some (Bets r) = map (bet_of_line parseFloat atoi) (bet_lines input)"
    using r by (simp add: ParseStrategy_def)
  then show ?thesis by blast
qed

theorem no_bankroll_line_defaults_to_zero_witness:
  "bankroll_lines ''bet: red, 0, 10\<newline>\<newline>bet: number, 7, 2.5\<newline>'' = []
   \<and> list_all (\<lambda>line. line_error read_decimal read_int line = None)
        (bet_lines ''bet: red, 0, 10\<newline>\<newline>bet: number, 7, 2.5\<newline>'')
   \<and> (\<exists>bets. ParseStrategy read_decimal read_int ''bet: red, 0, 10\<newline>\<newline>bet: number, 7, 2.5\<newline>''
          = Inr \<lparr>InitialBankroll = Finite 0, Bets = bets\<rparr>
        \<and> map Some bets = map (bet_of_line read_decimal read_int)
             (bet_lines ''bet: red, 0, 10\<newline>\<newline>bet: number, 7, 2.5\<newline>''))"
proof -
  have a: "bankroll_lines ''bet: red, 0, 10\<newline>\<newline>bet: number, 7, 2.5\<newline>'' = []"
    by code_simp
  have b: "list_all (\<lambda>line. line_error read_decimal read_int line = None)
        (bet_lines ''bet: red, 0, 10\<newline>\<newline>bet: number, 7, 2.5\<newline>'')"
    by code_simp
  from no_bankroll_line_defaults_to_zero [of "''bet: red, 0, 10\<newline>\<newline>bet: number, 7, 2.5\<newline>''" read_decimal read_int] a b
  show ?thesis by (simp add: list_all_iff)
qed

lemma negative_not_nonneg: "flt x (Finite 0) \<Longrightarrow> \<not> finite_nonneg x"
  by (cases x) auto

lemma parse_negative_bankroll:
  assumes "parseFloat ''-5'' = Some x"
  shows "ParseStrategy parseFloat atoi ''bankroll: -5'' = Inr \<lparr>InitialBankroll = x, Bets = []\<rparr>"
proof -
  have sp: "Split ''bankroll: -5'' CHR 0x0A = [''bankroll: -5'']"
    by code_simp
  have t: "TrimSpace ''bankroll: -5'' = ''bankroll: -5''"
    by code_simp
  have b: "is_bankroll_line ''bankroll: -5''"
    by code_simp
  have u: "bankroll_text ''bankroll: -5'' = ''-5''"
    by code_simp
  show ?thesis
    unfolding ParseStrategy_def sp
    by (simp add: parse_lines_step t spec_bankroll [OF b] u assms)
qed

lemma parse_negative_amount:
  assumes "parseFloat ''-5'' = Some x" "atoi ''0'' = Some 0"
  shows "ParseStrategy parseFloat atoi ''bet: red, 0, -5''
    = Inr \<lparr>InitialBankroll = Finite 0, Bets = [\<lparr>Type = ''red'', Value = 0, Amount = x\<rparr>]\<rparr>"
proof -
  have sp: "Split ''bet: red, 0, -5'' CHR 0x0A = [''bet: red, 0, -5'']"
    by code_simp
  have t: "TrimSpace ''bet: red, 0, -5'' = ''bet: red, 0, -5''"
    by code_simp
  have nb: "\<not> is_bankroll_line ''bet: red, 0, -5''"
    by code_simp
  have b: "is_bet_line ''bet: red, 0, -5''"
    by code_simp
  have f: "bet_fields ''bet: red, 0, -5'' = [''red'', ''0'', ''-5'']"
    by code_simp
  show ?thesis
    unfolding ParseStrategy_def sp
    by (simp add: parse_lines_step t spec_bet_three [OF nb b f] assms)
qed

text \<open>
  Claim C10. The parser accepts negative numbers. Whenever the float reader gives a
  negative value \<open>x\<close> for the text \<^verbatim>\<open>-5\<close> (and the integer reader gives 0 for \<^verbatim>\<open>0\<close>),
  the input \<^verbatim>\<open>bankroll: -5\<close> parses to a strategy whose initial bankroll is \<open>x\<close>, and
  the input \<^verbatim>\<open>bet: red, 0, -5\<close> to a strategy with one bet of amount \<open>x\<close>: a value
  that is not a finite non-negative amount is stored as it is.
\<close>

theorem parser_accepts_negative_numbers:
  assumes "parseFloat ''-5'' = Some x" and "flt x (Finite 0)" and "atoi ''0'' = Some 0"
  shows "ParseStrategy parseFloat atoi ''bankroll: -5'' = Inr \<lparr>InitialBankroll = x, Bets = []\<rparr>
     \<and> ParseStrategy parseFloat atoi ''bet: red, 0, -5''
         = Inr \<lparr>InitialBankroll = Finite 0, Bets = [\<lparr>Type = ''red'', Value = 0, Amount = x\<rparr>]\<rparr>
     \<and> \<not> finite_nonneg x"
  using parse_negative_bankroll [of parseFloat x atoi] parse_negative_amount [of parseFloat x atoi]
    negative_not_nonneg [of x] assms
  by simp

theorem parser_accepts_negative_numbers_witness:
  "read_decimal ''-5'' = Some (Finite (- 5)) \<and> flt (Finite (- 5)) (Finite 0)
   \<and> read_int ''0'' = Some 0
   \<and> ParseStrategy read_decimal read_int ''bankroll: -5''
       = Inr \<lparr>InitialBankroll = Finite (- 5), Bets = []\<rparr>
   \<and> ParseStrategy read_decimal read_int ''bet: red, 0, -5''
       = Inr \<lparr>InitialBankroll = Finite 0,
              Bets = [\<lparr>Type = ''red'', Value = 0, Amount = Finite (- 5)\<rparr>]\<rparr>"
proof -
  have a: "read_decimal ''-5'' = Some (Finite (- 5))"
    by code_simp
  have b: "flt (Finite (- 5)) (Finite 0)"
    by simp
  have c: "read_int ''0'' = Some 0"
    by code_simp
  from parser_accepts_negative_numbers [of read_decimal "Finite (- 5)" read_int] a b c show ?thesis by simp
qed

end
